theory Spec2Isabelle
  imports Complex_Main "HOL-Library.Log_Nat"
begin

section \<open>Numbers\<close>

text \<open>
  Every row, column, position and length of \<^verbatim>\<open>sparsematrix.ts\<close> is a JavaScript
  \<^verbatim>\<open>number\<close>, an IEEE 754 double.  The program only ever holds integers in them, so a
  number is an \<open>int\<close>; but the result of each arithmetic operator is the exact result
  rounded to the nearest double (53 bits of precision, ties to the even significand), and
  the address space of the matrix reaches beyond \<open>2 ^ 53\<close>, where that rounding is visible.
  \<open>fl\<close> is the rounding, on the rationals.  The exponent range of a double is not
  modelled (no overflow to infinity, no subnormal numbers): every magnitude computed here
  is many orders below either limit.
\<close>

type_synonym number = int

definition pow2 :: "int \<Rightarrow> rat" where
  "pow2 e = (if 0 \<le> e then 2 ^ nat e else 1 / 2 ^ nat (- e))"

definition roundTiesToEven :: "rat \<Rightarrow> int" where
  "roundTiesToEven y =
     (let f = \<lfloor>y\<rfloor>; d = y - of_int f
      in if d < 1 / 2 then f else if 1 / 2 < d then f + 1 else if even f then f else f + 1)"

text \<open>\<open>ilog2 x\<close> is the binary exponent of a positive \<open>x\<close>: \<open>2 ^ ilog2 x \<le> x < 2 ^ (ilog2 x + 1)\<close>.\<close>

definition ilog2 :: "rat \<Rightarrow> int" where
  "ilog2 x = (if 1 \<le> x then bitlen \<lfloor>x\<rfloor> - 1 else - bitlen (\<lceil>1 / x\<rceil> - 1))"

definition fl :: "rat \<Rightarrow> rat" where
  "fl x =
     (if x = 0 then 0
      else let a = \<bar>x\<bar>; e = ilog2 a - 52
           in sgn x * of_int (roundTiesToEven (a / pow2 e)) * pow2 e)"

text \<open>The operators \<^verbatim>\<open>+\<close>, \<^verbatim>\<open>-\<close>, \<^verbatim>\<open>*\<close> on integer-valued doubles, and \<^verbatim>\<open>Math.floor(a / b)\<close>.\<close>

definition num_add :: "number \<Rightarrow> number \<Rightarrow> number" where
  "num_add a b = \<lfloor>fl (of_int a + of_int b)\<rfloor>"

definition num_sub :: "number \<Rightarrow> number \<Rightarrow> number" where
  "num_sub a b = \<lfloor>fl (of_int a - of_int b)\<rfloor>"

definition num_mul :: "number \<Rightarrow> number \<Rightarrow> number" where
  "num_mul a b = \<lfloor>fl (of_int a * of_int b)\<rfloor>"

definition num_div_floor :: "number \<Rightarrow> number \<Rightarrow> number" where
  "num_div_floor a b = \<lfloor>fl (of_int a / of_int b)\<rfloor>"

section \<open>JavaScript arrays\<close>

text \<open>
  \<^verbatim>\<open>xs.slice(start, end)\<close>: a negative index counts from the end, both indices are
  clamped to the array, an omitted \<^verbatim>\<open>end\<close> is the length.
\<close>

definition js_clamp :: "'a list \<Rightarrow> number \<Rightarrow> nat" where
  "js_clamp xs i =
     (if i < 0 then nat (int (length xs) + i) else min (nat i) (length xs))"

definition js_slice :: "'a list \<Rightarrow> number \<Rightarrow> number option \<Rightarrow> 'a list" where
  "js_slice xs start end =
     (let s = js_clamp xs start;
          e = (case end of None \<Rightarrow> length xs | Some i \<Rightarrow> js_clamp xs i)
      in take (e - s) (drop s xs))"

text \<open>\<^verbatim>\<open>xs.splice(start, 0, ...ys)\<close>: the start is clamped like a slice index.\<close>

definition js_splice_insert :: "'a list \<Rightarrow> number \<Rightarrow> 'a list \<Rightarrow> 'a list" where
  "js_splice_insert xs start ys =
     (let s = js_clamp xs start in take s xs @ ys @ drop s xs)"

text \<open>
  \<^verbatim>\<open>xs.length = n\<close> (for \<open>n\<close> not negative, as it is wherever the program assigns a
  length) truncates, or extends with holes that read as \<^verbatim>\<open>undefined\<close>;
  \<^verbatim>\<open>xs[i]\<close> out of range reads \<^verbatim>\<open>undefined\<close>; \<^verbatim>\<open>xs[i] = v\<close> beyond the end extends
  the array with holes, and at a negative index leaves the elements alone.
\<close>

definition js_set_length :: "'a \<Rightarrow> 'a list \<Rightarrow> number \<Rightarrow> 'a list" where
  "js_set_length undef xs n =
     (if n \<le> int (length xs) then take (nat n) xs
      else xs @ replicate (nat n - length xs) undef)"

definition js_index :: "'a \<Rightarrow> 'a list \<Rightarrow> number \<Rightarrow> 'a" where
  "js_index undef xs i = (if 0 \<le> i \<and> i < int (length xs) then xs ! nat i else undef)"


section \<open>Segments\<close>

text \<open>\<^verbatim>\<open>UnboxedOper = undefined | boolean | number | string\<close>; a cell may hold any double.\<close>

datatype unboxedOper = Undefined | Boolean bool | Number rat | Text string

type_synonym propertySet = "(string \<times> unboxedOper) list"

datatype error =
    InvalidAppend        \<comment> \<open>\<^verbatim>\<open>can only append padding segment\<close>\<close>
  | UnrecognizedSegment  \<comment> \<open>\<^verbatim>\<open>Unrecognized Segment type\<close>, \<^verbatim>\<open>Unrecognized IJSONObject\<close>\<close>
  | InvalidTagTarget     \<comment> \<open>\<^verbatim>\<open>Must not attempt to set tags on ...\<close>\<close>
  | OutsideExtent        \<comment> \<open>the sequence engine was asked about a position outside its chain\<close>

text \<open>
  The state every segment inherits from \<^verbatim>\<open>BaseSegment\<close>: provenance (\<^verbatim>\<open>seq\<close>,
  \<^verbatim>\<open>clientId\<close>; \<open>None\<close> when the constructor was given none), the length and the
  optional property set.  Local references are owned by the sequence engine and read by
  nothing here; they are left out.
\<close>

record baseSegment =
  seq :: "number option"
  clientId :: "number option"
  cachedLength :: number
  properties :: "propertySet option"

type_synonym paddingSegment = baseSegment

text \<open>A tag is \<^verbatim>\<open>any\<close>: a value of an arbitrary type \<open>'t\<close>, or \<open>None\<close> for \<^verbatim>\<open>undefined\<close>.\<close>

record 't runSegment = baseSegment +
  items :: "unboxedOper list"
  tags :: "'t option list"

text \<open>
  An \<^verbatim>\<open>ISegment\<close> is a padding segment, a run segment, or a segment of some other class,
  whose \<^verbatim>\<open>type\<close> string is neither of the two.
\<close>

datatype 't segment =
    Padding paddingSegment
  | Run "'t runSegment"
  | Other baseSegment

fun PaddingSegment_is :: "'t segment \<Rightarrow> bool" where
  "PaddingSegment_is (Padding p) = True"
| "PaddingSegment_is _ = False"

fun RunSegment_is :: "'t segment \<Rightarrow> bool" where
  "RunSegment_is (Run r) = True"
| "RunSegment_is _ = False"

fun segment_cachedLength :: "'t segment \<Rightarrow> number" where
  "segment_cachedLength (Padding p) = cachedLength p"
| "segment_cachedLength (Run r) = cachedLength r"
| "segment_cachedLength (Other b) = cachedLength b"

text \<open>
  Modelled from the spec: \<^verbatim>\<open>UniversalSequenceNumber\<close> and \<^verbatim>\<open>LocalClientId\<close>, two
  constants of the merge-tree package that \<^verbatim>\<open>sparsematrix.ts\<close> imports (the provenance
  of a segment built from storage).  No theorem depends on their values.
\<close>

definition UniversalSequenceNumber :: number where
  "UniversalSequenceNumber = 0"

definition LocalClientId :: number where
  "LocalClientId = - 1"

text \<open>
  Modelled from the spec: \<^verbatim>\<open>BaseSegment.addProperties\<close> and \<^verbatim>\<open>BaseSegment.cloneInto\<close>,
  the base class's property hooks (``properties are copied via the base clone hook'').
\<close>

definition addProperties ::
  "propertySet \<Rightarrow> 'a baseSegment_scheme \<Rightarrow> 'a baseSegment_scheme" where
  "addProperties newProps s =
     s\<lparr>properties := Some (case properties s of None \<Rightarrow> newProps | Some old \<Rightarrow> newProps @ old)\<rparr>"

definition cloneInto ::
  "'a baseSegment_scheme \<Rightarrow> 'b baseSegment_scheme \<Rightarrow> 'b baseSegment_scheme" where
  "cloneInto this b = b\<lparr>properties := properties this\<rparr>"

subsection \<open>The serialized form\<close>

text \<open>
  A \<^verbatim>\<open>spec: any\<close> is an object with some of the keys \<^verbatim>\<open>pad\<close>, \<^verbatim>\<open>items\<close>, \<^verbatim>\<open>props\<close>, or
  a value that is no object.
\<close>

record jsonObject =
  pad :: "number option"
  items_key :: "unboxedOper list option"
  props :: "propertySet option"

datatype jsonValue = JNonObject | JObject jsonObject

subsection \<open>PaddingSegment\<close>

definition new_PaddingSegment ::
  "number \<Rightarrow> number option \<Rightarrow> number option \<Rightarrow> paddingSegment" where
  "new_PaddingSegment sz sq cid =
     \<lparr>seq = sq, clientId = cid, cachedLength = sz, properties = None\<rparr>"

definition PaddingSegment_fromJSONObject :: "jsonValue \<Rightarrow> paddingSegment option" where
  "PaddingSegment_fromJSONObject spec =
     (case spec of
        JNonObject \<Rightarrow> None
      | JObject obj \<Rightarrow>
          (case pad obj of
             None \<Rightarrow> None
           | Some n \<Rightarrow>
               (let segment =
                      new_PaddingSegment n (Some UniversalSequenceNumber) (Some LocalClientId)
                in case props obj of
                     None \<Rightarrow> Some segment
                   | Some ps \<Rightarrow> Some (addProperties ps segment))))"

definition PaddingSegment_toJSONObject :: "paddingSegment \<Rightarrow> jsonValue" where
  "PaddingSegment_toJSONObject this =
     JObject \<lparr>pad = Some (cachedLength this), items_key = None, props = properties this\<rparr>"

text \<open>\<^verbatim>\<open>clone(start = 0, end?)\<close>: the body reads neither parameter.\<close>

definition PaddingSegment_clone ::
  "paddingSegment \<Rightarrow> number \<Rightarrow> number option \<Rightarrow> paddingSegment" where
  "PaddingSegment_clone this start end =
     (let b = new_PaddingSegment (cachedLength this) (seq this) (clientId this)
      in cloneInto this b)"

definition PaddingSegment_canAppend :: "paddingSegment \<Rightarrow> 't segment \<Rightarrow> bool" where
  "PaddingSegment_canAppend this segment = PaddingSegment_is segment"

text \<open>
  \<^verbatim>\<open>append\<close> changes the segment in place and may throw: the result is the error
  thrown, if any, and the segment as the call leaves it.  \<^verbatim>\<open>appendLocalRefs\<close> moves the
  engine's local references, which are not part of this state.
\<close>

definition PaddingSegment_append ::
  "paddingSegment \<Rightarrow> 't segment \<Rightarrow> error option \<times> paddingSegment" where
  "PaddingSegment_append this segment =
     (if \<not> PaddingSegment_is segment then (Some InvalidAppend, this)
      else (None, this\<lparr>cachedLength :=
                     num_add (cachedLength this) (segment_cachedLength segment)\<rparr>))"

text \<open>\<^verbatim>\<open>createSplitSegmentAt\<close> returns the shortened segment and the new sibling.\<close>

definition PaddingSegment_createSplitSegmentAt ::
  "paddingSegment \<Rightarrow> number \<Rightarrow> paddingSegment \<times> paddingSegment" where
  "PaddingSegment_createSplitSegmentAt this pos =
     (let leftLength = pos;
          rightLength = num_sub (cachedLength this) pos
      in (this\<lparr>cachedLength := leftLength\<rparr>,
          new_PaddingSegment rightLength (seq this) (clientId this)))"

subsection \<open>RunSegment\<close>

text \<open>
  The constructor passes the items to the constructor of \<^verbatim>\<open>SubSequence\<close> and fills the
  tags with \<^verbatim>\<open>undefined\<close>.  Modelled from the spec: the \<^verbatim>\<open>SubSequence\<close> constructor,
  which keeps the items and sets the length to their number (``\<^verbatim>\<open>values.length ==
  tags.length == length\<close> at all times'').
\<close>

definition new_RunSegment ::
  "unboxedOper list \<Rightarrow> number option \<Rightarrow> number option \<Rightarrow> 't runSegment" where
  "new_RunSegment its sq cid =
     \<lparr>seq = sq, clientId = cid, cachedLength = int (length its), properties = None,
      items = its, tags = replicate (length its) None\<rparr>"

definition RunSegment_fromJSONObject :: "jsonValue \<Rightarrow> 't runSegment option" where
  "RunSegment_fromJSONObject spec =
     (case spec of
        JNonObject \<Rightarrow> None
      | JObject obj \<Rightarrow>
          (case items_key obj of
             None \<Rightarrow> None
           | Some its \<Rightarrow>
               (let segment =
                      new_RunSegment its (Some UniversalSequenceNumber) (Some LocalClientId)
                in case props obj of
                     None \<Rightarrow> Some segment
                   | Some ps \<Rightarrow> Some (addProperties ps segment))))"

text \<open>
  Modelled from the spec: \<^verbatim>\<open>SubSequence.toJSONObject\<close>, which \<^verbatim>\<open>RunSegment\<close> inherits:
  ``Serialized form: \<^verbatim>\<open>{ items: <ordered cell values>, properties? }\<close>. Tags are never
  serialized''.
\<close>

definition RunSegment_toJSONObject :: "'t runSegment \<Rightarrow> jsonValue" where
  "RunSegment_toJSONObject this =
     JObject \<lparr>pad = None, items_key = Some (items this), props = properties this\<rparr>"

definition RunSegment_clone ::
  "'t runSegment \<Rightarrow> number \<Rightarrow> number option \<Rightarrow> 't runSegment" where
  "RunSegment_clone this start end =
     (let b = new_RunSegment (js_slice (items this) start end) (seq this) (clientId this);
          b = b\<lparr>tags := js_slice (tags this) start end\<rparr>
      in cloneInto this b)"

text \<open>
  Modelled from the spec: \<^verbatim>\<open>SubSequence.append\<close>, the \<^verbatim>\<open>super.append\<close> of a run
  segment: it ``requires \<^verbatim>\<open>other\<close> be a run segment (enforced by the base capability
  before this method's logic runs); concatenates \<^verbatim>\<open>values\<close>'', and keeps the length equal
  to the number of values.
\<close>

definition SubSequence_append :: "'t runSegment \<Rightarrow> 't segment \<Rightarrow> error + 't runSegment" where
  "SubSequence_append this segment =
     (case segment of
        Run other \<Rightarrow>
          Inr (this\<lparr>items := items this @ items other,
                    cachedLength := num_add (cachedLength this) (cachedLength other)\<rparr>)
      | _ \<Rightarrow> Inl InvalidAppend)"

text \<open>
  \<^verbatim>\<open>RunSegment.append\<close>: after \<^verbatim>\<open>super.append\<close>, the other segment's tags are spliced
  in at \<^verbatim>\<open>this.items.length\<close>, which by then counts the appended items as well.
\<close>

definition RunSegment_append :: "'t runSegment \<Rightarrow> 't segment \<Rightarrow> error + 't runSegment" where
  "RunSegment_append this segment =
     (case SubSequence_append this segment of
        Inl e \<Rightarrow> Inl e
      | Inr this' \<Rightarrow>
          (case segment of
             Run asRun \<Rightarrow>
               Inr (this'\<lparr>tags :=
                      js_splice_insert (tags this') (int (length (items this'))) (tags asRun)\<rparr>)
           | _ \<Rightarrow> Inr this'))"



text \<open>
  \<^verbatim>\<open>createSplitSegmentAt\<close> returns the shortened segment and the new sibling, or nothing
  when \<^verbatim>\<open>pos\<close> is not positive.
\<close>

definition RunSegment_createSplitSegmentAt ::
  "'t runSegment \<Rightarrow> number \<Rightarrow> ('t runSegment \<times> 't runSegment) option" where
  "RunSegment_createSplitSegmentAt this pos =
     (if 0 < pos then
        (let remainingItems = js_slice (items this) pos None;
             this1 = this\<lparr>items := js_slice (items this) 0 (Some pos)\<rparr>;
             this2 = this1\<lparr>cachedLength := int (length (items this1))\<rparr>;
             leafSegment = new_RunSegment remainingItems (seq this2) (clientId this2);
             leafSegment = leafSegment\<lparr>tags := js_slice (tags this2) pos None\<rparr>;
             this3 = this2\<lparr>tags := js_set_length None (tags this2) pos\<rparr>
         in Some (this3, leafSegment))
      else None)"

section \<open>Position addressing\<close>

definition maxCol :: number where
  "maxCol = 0x200000"

definition maxCols :: number where
  "maxCols = num_add maxCol 1"

definition maxRow :: number where
  "maxRow = 0xFFFFFFFF"

definition maxRows :: number where
  "maxRows = num_add maxRow 1"

definition maxCellPosition :: number where
  "maxCellPosition = num_mul maxCol maxRow"

definition rowColToPosition :: "number \<Rightarrow> number \<Rightarrow> number" where
  "rowColToPosition row col = num_add (num_mul row maxCols) col"

definition positionToRowCol :: "number \<Rightarrow> number \<times> number" where
  "positionToRowCol position =
     (let row = num_div_floor position maxCols;
          col = num_sub position (num_mul row maxCols)
      in (row, col))"

section \<open>The sequence engine\<close>

text \<open>
  Modelled from the spec: the sequence engine (the merge-tree client behind
  \<^verbatim>\<open>SharedSegmentSequence\<close>), which is not in \<^verbatim>\<open>sparsematrix.ts\<close>.  The spec gives its
  surface, \<^verbatim>\<open>locate(position) -> (segment, intraSegmentOffset)\<close>,
  \<^verbatim>\<open>insertAt(position, segment)\<close>, \<^verbatim>\<open>removeRange(start, end)\<close>,
  \<^verbatim>\<open>replaceRange(start, end, newSegment)\<close>, and its invariant: the engine owns the live,
  ordered segment chain, ``the sum of \<^verbatim>\<open>length\<close> over the live, ordered segment chain equals
  the matrix's total linear extent'', and it ``locates/splits/merges segments as needed
  (invoking each segment's capability contract)''.  The chain is a list of segments; an
  operation at a position first splits the segment that contains it, through the segment's
  own \<^verbatim>\<open>createSplitSegmentAt\<close>.  The spec says nothing about a position outside the
  chain: there the operations give \<open>None\<close>.  This is the engine of a single author: no
  concurrent edit, no sequence numbers, no submission of the change.
\<close>

definition getLength :: "'t segment list \<Rightarrow> number" where
  "getLength chain = sum_list (map segment_cachedLength chain)"

fun segment_splitAt :: "'t segment \<Rightarrow> number \<Rightarrow> ('t segment \<times> 't segment) option" where
  "segment_splitAt (Padding p) pos =
     (case PaddingSegment_createSplitSegmentAt p pos of (l, r) \<Rightarrow> Some (Padding l, Padding r))"
| "segment_splitAt (Run r) pos =
     map_option (\<lambda>(l, s). (Run l, Run s)) (RunSegment_createSplitSegmentAt r pos)"
| "segment_splitAt (Other b) pos = None"

text \<open>\<open>getContainingSegment\<close> gives the segment's place in the chain, the segment and the offset.\<close>

fun getContainingSegment ::
  "'t segment list \<Rightarrow> number \<Rightarrow> (nat \<times> 't segment \<times> number) option" where
  "getContainingSegment [] pos = None"
| "getContainingSegment (s # rest) pos =
     (if pos < 0 then None
      else if pos < segment_cachedLength s then Some (0, s, pos)
      else map_option (\<lambda>(i, seg, off). (Suc i, seg, off))
             (getContainingSegment rest (pos - segment_cachedLength s)))"

text \<open>\<open>splitChain chain pos\<close> cuts the chain in two at \<open>pos\<close>, splitting a segment if it must.\<close>

fun splitChain ::
  "'t segment list \<Rightarrow> number \<Rightarrow> ('t segment list \<times> 't segment list) option" where
  "splitChain [] pos = (if pos = 0 then Some ([], []) else None)"
| "splitChain (s # rest) pos =
     (if pos < 0 then None
      else if pos = 0 then Some ([], s # rest)
      else if segment_cachedLength s \<le> pos then
        map_option (\<lambda>(a, b). (s # a, b)) (splitChain rest (pos - segment_cachedLength s))
      else map_option (\<lambda>(l, r). ([l], r # rest)) (segment_splitAt s pos))"

definition insertSegmentLocal ::
  "'t segment list \<Rightarrow> number \<Rightarrow> 't segment \<Rightarrow> 't segment list option" where
  "insertSegmentLocal chain pos segment =
     map_option (\<lambda>(a, b). a @ segment # b) (splitChain chain pos)"

definition removeRange ::
  "'t segment list \<Rightarrow> number \<Rightarrow> number \<Rightarrow> 't segment list option" where
  "removeRange chain start end =
     (if end < start then None
      else case splitChain chain start of
             None \<Rightarrow> None
           | Some (a, rest) \<Rightarrow> map_option (\<lambda>(b, c). a @ c) (splitChain rest (end - start)))"

definition replaceRange ::
  "'t segment list \<Rightarrow> number \<Rightarrow> number \<Rightarrow> 't segment \<Rightarrow> 't segment list option" where
  "replaceRange chain start end segment =
     (case removeRange chain start end of
        None \<Rightarrow> None
      | Some chain' \<Rightarrow> insertSegmentLocal chain' start segment)"

section \<open>SparseMatrix\<close>

text \<open>
  The state of a matrix is the chain its engine holds.  A method that throws returns
  \<open>Inl\<close>; where the engine gives no answer the method stops with \<open>OutsideExtent\<close>.
\<close>

definition engine :: "'a option \<Rightarrow> error + 'a" where
  "engine r = (case r of None \<Rightarrow> Inl OutsideExtent | Some x \<Rightarrow> Inr x)"

definition numRows :: "'t segment list \<Rightarrow> number" where
  "numRows chain = fst (positionToRowCol (getLength chain))"

definition setItems ::
  "number \<Rightarrow> number \<Rightarrow> unboxedOper list \<Rightarrow> propertySet option \<Rightarrow> 't segment list
   \<Rightarrow> error + 't segment list" where
  "setItems row col values propsArg chain =
     (let start = rowColToPosition row col;
          end = num_add start (int (length values));
          segment = new_RunSegment values None None;
          segment = (case propsArg of None \<Rightarrow> segment | Some ps \<Rightarrow> addProperties ps segment)
      in engine (replaceRange chain start end (Run segment)))"

definition getItem :: "number \<Rightarrow> number \<Rightarrow> 't segment list \<Rightarrow> error + unboxedOper" where
  "getItem row col chain =
     (let pos = rowColToPosition row col
      in case getContainingSegment chain pos of
           None \<Rightarrow> Inl OutsideExtent
         | Some (i, segment, offset) \<Rightarrow>
             (case segment of
                Run r \<Rightarrow> Inr (js_index Undefined (items r) offset)
              | Padding p \<Rightarrow> Inr Undefined
              | Other b \<Rightarrow> Inl UnrecognizedSegment))"

definition getSegment ::
  "number \<Rightarrow> number \<Rightarrow> 't segment list \<Rightarrow> (nat \<times> 't segment \<times> number) option" where
  "getSegment row col chain = getContainingSegment chain (rowColToPosition row col)"



definition insertRows :: "number \<Rightarrow> number \<Rightarrow> 't segment list \<Rightarrow> error + 't segment list" where
  "insertRows row nRows chain =
     (let pos = rowColToPosition row 0;
          sz = num_mul maxCols nRows;
          segment = new_PaddingSegment sz None None
      in engine (insertSegmentLocal chain pos (Padding segment)))"

definition removeRows :: "number \<Rightarrow> number \<Rightarrow> 't segment list \<Rightarrow> error + 't segment list" where
  "removeRows row nRows chain =
     (let pos = rowColToPosition row 0;
          sz = num_mul maxCols nRows
      in engine (removeRange chain pos (num_add pos sz)))"

text \<open>
  The loop of \<^verbatim>\<open>moveAsPadding\<close>, with its counter \<open>r\<close> and \<open>rowStart\<close>; \<^verbatim>\<open>this.numRows\<close>
  is read again at every turn.  \<open>None\<close> is a loop that does not end.
\<close>

partial_function (option) moveAsPadding_loop ::
  "number \<Rightarrow> number \<Rightarrow> number \<Rightarrow> number \<Rightarrow> number \<Rightarrow> number \<Rightarrow> 't segment list
   \<Rightarrow> (error + 't segment list) option" where
  "moveAsPadding_loop removeColStart removeColEnd destCol numCols r rowStart chain =
     (if r < numRows chain then
        (case removeRange chain (num_add rowStart removeColStart)
                (num_add rowStart removeColEnd) of
           None \<Rightarrow> Some (Inl OutsideExtent)
         | Some chain1 \<Rightarrow>
             (let insertPos = num_add rowStart destCol;
                  segment = new_PaddingSegment numCols
                              (Some UniversalSequenceNumber) (Some LocalClientId)
              in case insertSegmentLocal chain1 insertPos (Padding segment) of
                   None \<Rightarrow> Some (Inl OutsideExtent)
                 | Some chain2 \<Rightarrow>
                     moveAsPadding_loop removeColStart removeColEnd destCol numCols
                       (num_add r 1) (num_add rowStart maxCols) chain2))
      else Some (Inr chain))"

declare moveAsPadding_loop.simps [code]

definition moveAsPadding ::
  "number \<Rightarrow> number \<Rightarrow> number \<Rightarrow> 't segment list \<Rightarrow> (error + 't segment list) option" where
  "moveAsPadding srcCol destCol numCols chain =
     (let removeColStart = srcCol;
          removeColEnd = num_add srcCol numCols
      in moveAsPadding_loop removeColStart removeColEnd destCol numCols 0 0 chain)"

definition insertCols ::
  "number \<Rightarrow> number \<Rightarrow> 't segment list \<Rightarrow> (error + 't segment list) option" where
  "insertCols col numCols chain = moveAsPadding (num_sub maxCol numCols) col numCols chain"

definition removeCols ::
  "number \<Rightarrow> number \<Rightarrow> 't segment list \<Rightarrow> (error + 't segment list) option" where
  "removeCols col numCols chain = moveAsPadding col (num_sub maxCol numCols) numCols chain"

definition segmentFromSpec :: "jsonValue \<Rightarrow> error + 't segment" where
  "segmentFromSpec spec =
     (case PaddingSegment_fromJSONObject spec of
        Some maybePadding \<Rightarrow> Inr (Padding maybePadding)
      | None \<Rightarrow>
          (case RunSegment_fromJSONObject spec of
             Some maybeRun \<Rightarrow> Inr (Run maybeRun)
           | None \<Rightarrow> Inl UnrecognizedSegment))"

section \<open>Well-formed chains and the cells they hold\<close>

text \<open>
  The invariant of the data model: a run segment has as many tags as values and its
  length is their number; a padding segment's length is not negative; a chain of a
  matrix holds no other segment.
\<close>

fun wf_segment :: "'t segment \<Rightarrow> bool" where
  "wf_segment (Padding p) = (0 \<le> cachedLength p)"
| "wf_segment (Run r) =
     (cachedLength r = int (length (items r)) \<and> length (tags r) = length (items r))"
| "wf_segment (Other b) = False"

definition wf_chain :: "'t segment list \<Rightarrow> bool" where
  "wf_chain chain = list_all wf_segment chain"

text \<open>The cells of a chain, one per position: empty, or a value with its tag.\<close>

datatype 't cell = Empty | Filled unboxedOper "'t option"

fun segment_cells :: "'t segment \<Rightarrow> 't cell list" where
  "segment_cells (Padding p) = replicate (nat (cachedLength p)) Empty"
| "segment_cells (Run r) = map (\<lambda>(v, t). Filled v t) (zip (items r) (tags r))"
| "segment_cells (Other b) = []"

definition chain_cells :: "'t segment list \<Rightarrow> 't cell list" where
  "chain_cells chain = concat (map segment_cells chain)"

text \<open>The cells of one row of the matrix.\<close>

definition rowCells :: "'t segment list \<Rightarrow> number \<Rightarrow> 't cell list" where
  "rowCells chain row = take (nat maxCols) (drop (nat (row * maxCols)) (chain_cells chain))"

fun cell_value :: "'t cell \<Rightarrow> unboxedOper" where
  "cell_value Empty = Undefined"
| "cell_value (Filled v t) = v"

text \<open>
  What column insertion does to the cells, told without the chain: \<open>movedCell c n old p\<close>
  is the cell at position \<open>p\<close> once \<open>n\<close> columns were inserted at column \<open>c\<close> in the row
  of \<open>p\<close>, where \<open>old\<close> are the cells before; \<open>movedRows r c n old\<close> has the first \<open>r\<close>
  rows done.
\<close>

definition movedCell :: "nat \<Rightarrow> nat \<Rightarrow> 't cell list \<Rightarrow> nat \<Rightarrow> 't cell" where
  "movedCell c n old p =
     (let col = p mod 2097153
      in if col < c then old ! p
         else if col < c + n then Empty
         else if col < 2097152 then old ! (p - n)
         else old ! p)"

definition movedRows :: "nat \<Rightarrow> nat \<Rightarrow> nat \<Rightarrow> 't cell list \<Rightarrow> nat \<Rightarrow> 't cell" where
  "movedRows r c n old p = (if p < r * 2097153 then movedCell c n old p else old ! p)"

section \<open>Example values\<close>

text \<open>Segments and chains at which the theorems below are instantiated.\<close>

definition exampleRun :: "string runSegment" where
  "exampleRun =
     \<lparr>seq = Some 7, clientId = Some 2, cachedLength = 3, properties = None,
      items = [Text ''a'', Number 1, Undefined],
      tags = [Some ''x'', None, Some ''y'']\<rparr>"

definition exampleRun2 :: "string runSegment" where
  "exampleRun2 =
     \<lparr>seq = Some 9, clientId = Some 4, cachedLength = 2, properties = None,
      items = [Boolean True, Text ''b''],
      tags = [None, Some ''z'']\<rparr>"



text \<open>A matrix of one empty row.\<close>

definition exampleRow :: "string segment list" where
  "exampleRow = [Padding (new_PaddingSegment 2097153 None None)]"

definition exampleRowWritten :: "string segment list" where
  "exampleRowWritten =
     [Run (new_RunSegment [Text ''a''] None None),
      Padding (new_PaddingSegment 2097152 None None)]"

text \<open>
  A matrix of \<open>2 ^ 32\<close> empty rows, as \<open>insertRows 0 4294967296\<close> makes it from the empty
  chain, and the same matrix after two values were written at the start of its last row.
\<close>

definition topChain :: "string segment list" where
  "topChain = [Padding (new_PaddingSegment 9007203549708288 None None)]"

definition topChainWritten :: "string segment list" where
  "topChainWritten =
     [Padding (new_PaddingSegment 9007203547611136 None None),
      Run (new_RunSegment [Text ''a'', Text ''b''] None None),
      Padding (new_PaddingSegment 2097150 None None)]"

text \<open>
  A matrix of one row with a value in column \<open>maxCol - 1\<close>, and the same matrix after a
  column was inserted at column \<open>0\<close>.
\<close>

definition tailRow :: "string segment list" where
  "tailRow =
     [Padding (new_PaddingSegment 2097151 None None),
      Run (new_RunSegment [Text ''x''] None None),
      Padding (new_PaddingSegment 1 None None)]"

definition tailRowShifted :: "string segment list" where
  "tailRowShifted =
     [Padding (new_PaddingSegment 1 (Some UniversalSequenceNumber) (Some LocalClientId)),
      Padding (new_PaddingSegment 2097151 None None),
      Padding (new_PaddingSegment 1 None None)]"

text \<open>A matrix of one row that starts with two values.\<close>

definition exampleRowAB :: "string segment list" where
  "exampleRowAB =
     [Run (new_RunSegment [Text ''a'', Text ''b''] None None),
      Padding (new_PaddingSegment 2097151 None None)]"

section \<open>Rounding is exact below \<open>2 ^ 53\<close>\<close>

text \<open>
  The rounding at values whose doubles are well known: \<open>1/3\<close> and \<open>1/10\<close> (the doubles
  \<^verbatim>\<open>0x3FD5555555555555\<close> and \<^verbatim>\<open>0x3FB999999999999A\<close>), and the integers next to \<open>2 ^ 53\<close>.
\<close>

lemma fl_examples:
  "fl (1 / 3) = 6004799503160661 / 2 ^ 54"
  "fl (1 / 10) = 7205759403792794 / 2 ^ 56"
  "fl (2 ^ 53 + 1) = 2 ^ 53"
  "fl (2 ^ 53 + 2) = 2 ^ 53 + 2"
  "fl (2 ^ 53 + 3) = 2 ^ 53 + 4"
  "fl (- (2 ^ 53) - 1) = - (2 ^ 53)"
  by code_simp+

lemma roundTiesToEven_of_int: "roundTiesToEven (of_int k) = k"
  by (simp add: roundTiesToEven_def)

lemma roundTiesToEven_cases:
  "roundTiesToEven y = \<lfloor>y\<rfloor> \<or> roundTiesToEven y = \<lfloor>y\<rfloor> + 1"
  by (simp add: roundTiesToEven_def Let_def)

lemma roundTiesToEven_ge:
  assumes "of_int k \<le> y" shows "k \<le> roundTiesToEven y"
proof -
  from assms have "k \<le> \<lfloor>y\<rfloor>" by (simp add: le_floor_iff)
  with roundTiesToEven_cases [of y] show ?thesis by linarith
qed

lemma roundTiesToEven_less:
  assumes "y < of_int k - 1 / 2" shows "roundTiesToEven y < k"
proof (cases "\<lfloor>y\<rfloor> + 1 < k")
  case True
  with roundTiesToEven_cases [of y] show ?thesis by linarith
next
  case False
  have "y < of_int k" using assms by linarith
  then have "\<lfloor>y\<rfloor> < k" by (simp add: floor_less_iff)
  with False have f: "\<lfloor>y\<rfloor> = k - 1" by linarith
  then have "y - of_int \<lfloor>y\<rfloor> < 1 / 2" using assms by simp
  then have "roundTiesToEven y = \<lfloor>y\<rfloor>" by (simp add: roundTiesToEven_def Let_def)
  with f show ?thesis by simp
qed

lemma pow2_nonpos: "e \<le> 0 \<Longrightarrow> pow2 e = 1 / 2 ^ nat (- e)"
  by (simp add: pow2_def)

lemma pow2_pos: "0 < pow2 e"
  by (simp add: pow2_def)

lemma fl_pos:
  "0 < x \<Longrightarrow> fl x = of_int (roundTiesToEven (x / pow2 (ilog2 x - 52))) * pow2 (ilog2 x - 52)"
  by (simp add: fl_def Let_def)

lemma fl_minus: "fl (- x) = - fl x"
  by (simp add: fl_def Let_def)

lemma fl_of_int_pos:
  assumes "0 < z" and "z < 2 ^ 53"
  shows "fl (of_int z) = of_int z"
proof -
  have one: "(1::rat) \<le> of_int z" using assms(1) by simp
  have "bitlen z \<le> 53" using assms(2) by (simp add: bitlen_le_iff_power)
  then have e: "ilog2 (of_int z) - 52 \<le> 0" using one by (simp add: ilog2_def)
  define n where "n = nat (- (ilog2 (of_int z) - 52))"
  have p: "pow2 (ilog2 (of_int z) - 52) = 1 / 2 ^ n"
    unfolding n_def by (rule pow2_nonpos [OF e])
  have "of_int z / (1 / 2 ^ n) = (of_int (z * 2 ^ n) :: rat)" by simp
  then have r: "roundTiesToEven (of_int z / (1 / 2 ^ n)) = z * 2 ^ n"
    by (simp only: roundTiesToEven_of_int)
  have "fl (of_int z) = of_int (z * 2 ^ n) * (1 / 2 ^ n)"
    using assms(1) by (simp only: fl_pos of_int_0_less_iff p r)
  then show ?thesis by simp
qed

lemma fl_of_int:
  assumes "\<bar>z\<bar> < 2 ^ 53"
  shows "fl (of_int z) = of_int z"
proof (cases "0 < z")
  case True
  with assms show ?thesis by (simp add: fl_of_int_pos)
next
  case False
  show ?thesis
  proof (cases "z = 0")
    case True
    then show ?thesis by (simp add: fl_def)
  next
    case False
    with \<open>\<not> 0 < z\<close> assms have "0 < - z" "- z < 2 ^ 53" by simp_all
    then have "fl (of_int (- z)) = of_int (- z)" by (rule fl_of_int_pos)
    then show ?thesis by (simp add: fl_minus)
  qed
qed

lemma num_add_exact: "\<bar>a + b\<bar> < 2 ^ 53 \<Longrightarrow> num_add a b = a + b"
  using fl_of_int [of "a + b"] by (simp add: num_add_def)

lemma num_sub_exact: "\<bar>a - b\<bar> < 2 ^ 53 \<Longrightarrow> num_sub a b = a - b"
  using fl_of_int [of "a - b"] by (simp add: num_sub_def)

lemma num_mul_exact: "\<bar>a * b\<bar> < 2 ^ 53 \<Longrightarrow> num_mul a b = a * b"
  using fl_of_int [of "a * b"] by (simp add: num_mul_def flip: of_int_mult)

lemma ilog2_le_31:
  assumes "0 < x" and "x < 2 ^ 32"
  shows "ilog2 x \<le> 31"
proof (cases "1 \<le> x")
  case True
  have "\<lfloor>x\<rfloor> < 2 ^ 32" using assms(2) by (simp add: floor_less_iff)
  then have "bitlen \<lfloor>x\<rfloor> \<le> 32" by (simp add: bitlen_le_iff_power)
  with True show ?thesis by (simp add: ilog2_def)
next
  case False
  have "0 \<le> bitlen (\<lceil>1 / x\<rceil> - 1)" by (rule bitlen_nonneg)
  with False show ?thesis by (simp add: ilog2_def)
qed

lemma floor_fl_div:
  assumes p: "0 \<le> p" "p < 2 ^ 53" and b: "2 ^ 21 < b" "b < 2 ^ 22"
  shows "\<lfloor>fl (of_int p / of_int b)\<rfloor> = p div b"
proof (cases "p = 0")
  case True
  then show ?thesis by (simp add: fl_def)
next
  case False
  define x :: rat where "x = of_int p / of_int b"
  define q where "q = p div b"
  have "(0::int) < 2 ^ 21" by simp
  with b(1) have bpos: "0 < b" by linarith
  have xpos: "0 < x" using False p(1) bpos by (simp add: x_def)
  have "p < 2 ^ 32 * b" using p(2) b(1) by simp
  then have "x < 2 ^ 32" using bpos by (simp add: x_def pos_divide_less_eq flip: of_int_mult of_int_less_iff) 
  then have e: "ilog2 x - 52 \<le> - 21" using ilog2_le_31 [OF xpos] by simp
  define n where "n = nat (- (ilog2 x - 52))"
  have n: "21 \<le> n" using e by (simp add: n_def)
  have pw: "pow2 (ilog2 x - 52) = 1 / 2 ^ n"
    unfolding n_def using e by (intro pow2_nonpos) simp
  define m where "m = roundTiesToEven (x * 2 ^ n)"
  have flx: "fl x = of_int m / 2 ^ n"
    using xpos by (simp add: fl_pos pw m_def)
  have pm: "p = q * b + p mod b" by (simp add: q_def)
  have m1: "0 \<le> p mod b" "p mod b < b" using bpos by simp_all
  have qb: "q * b \<le> p" "p \<le> q * b + b - 1"
    using pm m1 by linarith+
  have brat: "(0::rat) < of_int b" using bpos by simp
  have xlow: "of_int q \<le> x"
  proof -
    have "(of_int (q * b) :: rat) \<le> of_int p" using qb(1) by (simp only: of_int_le_iff)
    then show ?thesis using brat by (simp add: x_def pos_le_divide_eq)
  qed
  have xup: "x \<le> of_int (q + 1) - 1 / of_int b"
  proof -
    have "(of_int p :: rat) \<le> of_int (q * b + b - 1)" using qb(2) by (simp only: of_int_le_iff)
    then have "(of_int p :: rat) \<le> (of_int (q + 1) - 1 / of_int b) * of_int b"
      using brat by (simp add: algebra_simps)
    then show ?thesis using brat by (simp add: x_def pos_divide_le_eq)
  qed
  have tn: "(0::rat) < 2 ^ n" by simp
  have low: "q \<le> \<lfloor>fl x\<rfloor>"
  proof -
    have "(of_int (q * 2 ^ n) :: rat) \<le> x * 2 ^ n" using xlow by simp
    then have "q * 2 ^ n \<le> m" unfolding m_def by (rule roundTiesToEven_ge)
    then have "(of_int (q * 2 ^ n) :: rat) \<le> of_int m" by (simp only: of_int_le_iff)
    then have "of_int q \<le> fl x" using tn by (simp add: flx pos_le_divide_eq)
    then show ?thesis by (simp add: le_floor_iff)
  qed
  have up: "\<lfloor>fl x\<rfloor> < q + 1"
  proof -
    have "(2::int) ^ 22 \<le> 2 ^ (n + 1)" using n by (intro power_increasing) simp_all
    then have "b < 2 ^ (n + 1)" using b(2) by linarith
    then have "(of_int b :: rat) < of_int (2 ^ (n + 1))" by (simp only: of_int_less_iff)
    then have half: "(1::rat) / 2 < 2 ^ n / of_int b"
      using brat by (simp add: pos_less_divide_eq)
    have "x * 2 ^ n \<le> (of_int (q + 1) - 1 / of_int b) * 2 ^ n"
      using xup tn by (simp only: mult_le_cancel_right_pos)
    also have "\<dots> = of_int ((q + 1) * 2 ^ n) - 2 ^ n / of_int b"
      by (simp add: algebra_simps)
    also have "\<dots> < of_int ((q + 1) * 2 ^ n) - 1 / 2" using half by linarith
    finally have "m < (q + 1) * 2 ^ n" unfolding m_def by (rule roundTiesToEven_less)
    then have "(of_int m :: rat) < of_int ((q + 1) * 2 ^ n)" by (simp only: of_int_less_iff)
    then have "fl x < of_int (q + 1)" using tn by (simp add: flx pos_divide_less_eq)
    then show ?thesis by (simp only: floor_less_iff)
  qed
  from low up have "\<lfloor>fl x\<rfloor> = q" by linarith
  then show ?thesis by (simp add: x_def q_def)
qed

lemma maxCol_eq: "maxCol = 2097152"
  by (simp add: maxCol_def)

lemma maxCols_eq: "maxCols = 2097153"
  by (simp add: maxCols_def maxCol_def num_add_exact)

lemma maxRow_eq: "maxRow = 4294967295"
  by (simp add: maxRow_def)

lemma rowColToPosition_exact:
  assumes "0 \<le> row" "0 \<le> col" "row * 2097153 + col < 2 ^ 53"
  shows "rowColToPosition row col = row * 2097153 + col"
proof -
  have "0 \<le> row * 2097153" using assms(1) by simp
  with assms have "\<bar>row * 2097153\<bar> < 2 ^ 53" "\<bar>row * 2097153 + col\<bar> < 2 ^ 53" by linarith+
  then show ?thesis
    by (simp add: rowColToPosition_def maxCols_eq num_mul_exact num_add_exact)
qed

lemma positionToRowCol_exact:
  assumes "0 \<le> p" "p < 2 ^ 53"
  shows "positionToRowCol p = (p div 2097153, p mod 2097153)"
proof -
  have d: "num_div_floor p maxCols = p div 2097153"
    unfolding num_div_floor_def maxCols_eq using assms by (intro floor_fl_div) simp_all
  have "0 \<le> p div 2097153" using assms(1) by (simp add: pos_imp_zdiv_nonneg_iff)
  moreover have le: "p div 2097153 * 2097153 \<le> p"
    using div_mult_mod_eq [of p 2097153] pos_mod_sign [of 2097153 p] by linarith
  ultimately have "\<bar>p div 2097153 * 2097153\<bar> < 2 ^ 53" using assms(2) by simp
  then have m: "num_mul (p div 2097153) maxCols = p div 2097153 * 2097153"
    by (simp add: maxCols_eq num_mul_exact)
  have "0 \<le> p - p div 2097153 * 2097153" "p - p div 2097153 * 2097153 \<le> p"
    using le \<open>0 \<le> p div 2097153\<close> by simp_all
  then have "\<bar>p - p div 2097153 * 2097153\<bar> < 2 ^ 53" using assms(2) by simp
  then have "num_sub p (p div 2097153 * 2097153) = p - p div 2097153 * 2097153"
    by (rule num_sub_exact)
  also have "\<dots> = p mod 2097153" by (simp add: minus_div_mult_eq_mod)
  finally show ?thesis by (simp add: positionToRowCol_def Let_def d m)
qed

lemma positionToRowCol_rowColToPosition:
  assumes "0 \<le> row" "0 \<le> col" "col \<le> maxCol" "row * 2097153 + col < 2 ^ 53"
  shows "positionToRowCol (rowColToPosition row col) = (row, col)"
proof -
  have c: "col < 2097153" using assms(3) by (simp add: maxCol_eq)
  have "0 \<le> row * 2097153 + col" using assms(1,2) by simp
  then have "positionToRowCol (row * 2097153 + col) =
      ((row * 2097153 + col) div 2097153, (row * 2097153 + col) mod 2097153)"
    using assms(4) by (rule positionToRowCol_exact)
  moreover have "(row * 2097153 + col) div 2097153 = row" using assms(2) c by simp
  moreover have "(row * 2097153 + col) mod 2097153 = col" using assms(2) c by simp
  ultimately show ?thesis using assms by (simp add: rowColToPosition_exact)
qed

section \<open>Position addressing: the round trip\<close>

text \<open>
  C2.  For every row in \<open>[0, maxRow]\<close> and every column in \<open>[0, maxCol]\<close>,
  \<open>positionToRowCol (rowColToPosition row col)\<close> should be exactly \<open>(row, col)\<close>.  At the
  last cell of the documented range it is not: the position \<open>maxRow * maxCols + maxCol\<close> is
  \<open>2 ^ 53 + 2 ^ 32 - 1\<close>, which no double holds; the product rounds up by one, the sum is
  \<open>2 ^ 53 + 2 ^ 32\<close>, and the way back gives row \<open>maxRow + 1\<close>, column \<open>0\<close>.  (The lemma
  \<open>positionToRowCol_rowColToPosition\<close> above is the round trip for every position below
  \<open>2 ^ 53\<close>.)
\<close>

theorem positionToRowCol_rowColToPosition_max:
  "positionToRowCol (rowColToPosition maxRow maxCol) = (4294967296, 0)
   \<and> (maxRow, maxCol) = (4294967295, 2097152)"
  by code_simp

section \<open>Run segments: split and append\<close>

lemma js_slice_from: "0 \<le> k \<Longrightarrow> js_slice xs k None = drop (nat k) xs"
  by (simp add: js_slice_def js_clamp_def min_def)

lemma js_slice_upto: "0 \<le> k \<Longrightarrow> js_slice xs 0 (Some k) = take (nat k) xs"
  by (simp add: js_slice_def js_clamp_def min_def)

lemma js_set_length_take:
  "0 \<le> k \<Longrightarrow> k \<le> int (length xs) \<Longrightarrow> js_set_length u xs k = take (nat k) xs"
  by (simp add: js_set_length_def)

lemma js_splice_insert_end:
  "int (length xs) \<le> k \<Longrightarrow> js_splice_insert xs k ys = xs @ ys"
  by (simp add: js_splice_insert_def js_clamp_def)

text \<open>
  C3.  For a run segment of length \<open>L\<close> and a split point \<open>0 < k < L\<close>,
  \<^verbatim>\<open>createSplitSegmentAt(k)\<close> (the work of \<^verbatim>\<open>splitAt\<close>) leaves a left segment and returns
  a right sibling with \<open>left.values @ right.values = original.values\<close> and
  \<open>left.tags @ right.tags = original.tags\<close>; the sibling has the original's \<^verbatim>\<open>seq\<close> and
  \<^verbatim>\<open>clientId\<close>.  The lengths are \<open>k\<close> and \<open>L - k\<close>.
\<close>

theorem RunSegment_split_law:
  assumes "wf_segment (Run this)" and "0 < k" and "k < cachedLength this"
  shows "\<exists>left right.
           RunSegment_createSplitSegmentAt this k = Some (left, right)
           \<and> items left @ items right = items this
           \<and> tags left @ tags right = tags this
           \<and> seq right = seq this \<and> clientId right = clientId this
           \<and> length (items left) = nat k
           \<and> cachedLength left = k \<and> cachedLength right = cachedLength this - k"
  using assms
  by (simp add: RunSegment_createSplitSegmentAt_def Let_def new_RunSegment_def
      js_slice_from js_slice_upto js_set_length_take)

theorem RunSegment_split_law_witness:
  "wf_segment (Run exampleRun) \<and> (0::int) < 1 \<and> 1 < cachedLength exampleRun
   \<and> (\<exists>left right.
         RunSegment_createSplitSegmentAt exampleRun 1 = Some (left, right)
         \<and> items left @ items right = [Text ''a'', Number 1, Undefined]
         \<and> tags left @ tags right = [Some ''x'', None, Some ''y'']
         \<and> seq right = Some 7 \<and> clientId right = Some 2
         \<and> length (items left) = 1)"
proof -
  have h1: "wf_segment (Run exampleRun)" by (simp add: exampleRun_def)
  have h2: "(0::int) < 1" by simp
  have h3: "1 < cachedLength exampleRun" by (simp add: exampleRun_def)
  show ?thesis
    using h1 h3 RunSegment_split_law [OF h1 h2 h3] by (simp add: exampleRun_def) blast
qed

text \<open>
  C4.  For run segments \<open>A\<close> and \<open>B\<close> (\<open>A\<close> can append \<open>B\<close>: the argument is a run
  segment), after \<open>A.append(B)\<close> the values of \<open>A\<close> are its former values followed by those
  of \<open>B\<close>, and likewise the tags; and appending the sibling that a split returned to the
  segment the split left gives back the values and tags of the segment that was split.
\<close>

theorem RunSegment_append_law:
  "(wf_segment (Run a) \<and> RunSegment_is segment \<longrightarrow>
      (\<exists>b a'. segment = Run b
         \<and> RunSegment_append a segment = Inr a'
         \<and> items a' = items a @ items b
         \<and> tags a' = tags a @ tags b))
   \<and> (wf_segment (Run this) \<and> 0 < k \<and> k < cachedLength this \<longrightarrow>
        (\<exists>left right a'.
           RunSegment_createSplitSegmentAt this k = Some (left, right)
           \<and> RunSegment_append left (Run right) = Inr a'
           \<and> items a' = items this \<and> tags a' = tags this))"
proof (intro conjI impI)
  assume "wf_segment (Run a) \<and> RunSegment_is segment"
  then show "\<exists>b a'. segment = Run b \<and> RunSegment_append a segment = Inr a'
      \<and> items a' = items a @ items b \<and> tags a' = tags a @ tags b"
    by (cases segment)
       (simp_all add: RunSegment_append_def SubSequence_append_def js_splice_insert_end)
next
  assume "wf_segment (Run this) \<and> 0 < k \<and> k < cachedLength this"
  then show "\<exists>left right a'.
      RunSegment_createSplitSegmentAt this k = Some (left, right)
      \<and> RunSegment_append left (Run right) = Inr a'
      \<and> items a' = items this \<and> tags a' = tags this"
    by (simp add: RunSegment_createSplitSegmentAt_def Let_def new_RunSegment_def
        js_slice_from js_slice_upto js_set_length_take
        RunSegment_append_def SubSequence_append_def js_splice_insert_end)
qed

theorem RunSegment_append_law_witness:
  "wf_segment (Run exampleRun) \<and> RunSegment_is (Run exampleRun2)
   \<and> (\<exists>a'. RunSegment_append exampleRun (Run exampleRun2) = Inr a'
         \<and> items a' = [Text ''a'', Number 1, Undefined, Boolean True, Text ''b'']
         \<and> tags a' = [Some ''x'', None, Some ''y'', None, Some ''z''])
   \<and> (0::int) < 2 \<and> 2 < cachedLength exampleRun
   \<and> (\<exists>left right a'.
         RunSegment_createSplitSegmentAt exampleRun 2 = Some (left, right)
         \<and> RunSegment_append left (Run right) = Inr a'
         \<and> items a' = items exampleRun \<and> tags a' = tags exampleRun)"
proof -
  have h1: "wf_segment (Run exampleRun) \<and> RunSegment_is (Run exampleRun2)"
    by (simp add: exampleRun_def)
  have h2: "wf_segment (Run exampleRun) \<and> 0 < (2::int) \<and> 2 < cachedLength exampleRun"
    by (simp add: exampleRun_def)
  from RunSegment_append_law [of exampleRun "Run exampleRun2" exampleRun 2]
  have a: "\<exists>b a'. Run exampleRun2 = Run b
         \<and> RunSegment_append exampleRun (Run exampleRun2) = Inr a'
         \<and> items a' = items exampleRun @ items b
         \<and> tags a' = tags exampleRun @ tags b"
    and b: "\<exists>left right a'.
         RunSegment_createSplitSegmentAt exampleRun 2 = Some (left, right)
         \<and> RunSegment_append left (Run right) = Inr a'
         \<and> items a' = items exampleRun \<and> tags a' = tags exampleRun"
    using h1 h2 by blast+
  from a have "\<exists>a'. RunSegment_append exampleRun (Run exampleRun2) = Inr a'
         \<and> items a' = [Text ''a'', Number 1, Undefined, Boolean True, Text ''b'']
         \<and> tags a' = [Some ''x'', None, Some ''y'', None, Some ''z'']"
    by (simp add: exampleRun_def exampleRun2_def)
  with h1 h2 b show ?thesis by simp
qed

section \<open>Padding segments: append and clone\<close>

text \<open>
  \<^verbatim>\<open>PaddingSegment.append(other)\<close> succeeds exactly when \<open>other\<close> is a padding segment, and
  then the length is the sum of the two lengths as the program computes it, which is the
  exact sum while that is below \<open>2 ^ 53\<close>; for any other argument it throws
  \<open>InvalidAppend\<close> and leaves the segment as it was.
\<close>

lemma PaddingSegment_append_law:
  "(PaddingSegment_is segment \<longrightarrow>
      PaddingSegment_canAppend this segment
      \<and> fst (PaddingSegment_append this segment) = None
      \<and> cachedLength (snd (PaddingSegment_append this segment))
          = num_add (cachedLength this) (segment_cachedLength segment)
      \<and> (\<bar>cachedLength this + segment_cachedLength segment\<bar> < 2 ^ 53 \<longrightarrow>
           cachedLength (snd (PaddingSegment_append this segment))
             = cachedLength this + segment_cachedLength segment))
   \<and> (\<not> PaddingSegment_is segment \<longrightarrow>
        \<not> PaddingSegment_canAppend this segment
        \<and> PaddingSegment_append this segment = (Some InvalidAppend, this))"
  by (simp add: PaddingSegment_append_def PaddingSegment_canAppend_def num_add_exact)

text \<open>
  C5.  \<^verbatim>\<open>PaddingSegment.append(other)\<close> succeeds exactly when \<open>other\<close> is a padding
  segment, and then the length is the sum \<open>n + m\<close> of the two lengths; for any other
  argument it throws \<open>InvalidAppend\<close> and leaves the length as it was.  The sum is not
  always reached: appended to the padding segment of \<open>2 ^ 32\<close> empty rows (the one that
  \<open>insertRows 0 4294967296\<close> makes), a padding segment of length \<open>1\<close> leaves the length
  at \<open>9007203549708288\<close>.
\<close>

theorem PaddingSegment_append_top:
  "insertRows 0 4294967296 [] = Inr [Padding (new_PaddingSegment 9007203549708288 None None)
        :: string segment]
   \<and> PaddingSegment_is (Padding (new_PaddingSegment 1 None None) :: string segment)
   \<and> fst (PaddingSegment_append (new_PaddingSegment 9007203549708288 None None)
           (Padding (new_PaddingSegment 1 None None) :: string segment)) = None
   \<and> cachedLength (snd (PaddingSegment_append (new_PaddingSegment 9007203549708288 None None)
           (Padding (new_PaddingSegment 1 None None) :: string segment))) = 9007203549708288
   \<and> (9007203549708288 :: int) + 1 = 9007203549708289"
  by code_simp

text \<open>
  C10.  \<^verbatim>\<open>PaddingSegment.clone(start, end)\<close> does not read \<open>start\<close> and \<open>end\<close>: whatever
  they are, the clone has the whole length of the original, never that of a sub-range, and
  it has the original's properties and provenance.
\<close>

theorem PaddingSegment_clone_law:
  "PaddingSegment_clone this start end = PaddingSegment_clone this 0 None
   \<and> cachedLength (PaddingSegment_clone this start end) = cachedLength this
   \<and> properties (PaddingSegment_clone this start end) = properties this
   \<and> seq (PaddingSegment_clone this start end) = seq this
   \<and> clientId (PaddingSegment_clone this start end) = clientId this"
  by (simp add: PaddingSegment_clone_def new_PaddingSegment_def cloneInto_def)

section \<open>Serialization\<close>

text \<open>
  C9.  Reading the serialized form of a run segment back with \<^verbatim>\<open>segmentFromSpec\<close> gives
  a run segment with the same items and a tag array of the same length whose every entry
  is absent, whatever tags the original had; the serialized form does not depend on the
  tags.
\<close>

theorem segmentFromSpec_RunSegment_toJSONObject:
  "(\<exists>r. (segmentFromSpec (RunSegment_toJSONObject this) :: error + 't segment) = Inr (Run r)
        \<and> items r = items this
        \<and> tags r = replicate (length (items this)) None
        \<and> cachedLength r = int (length (items this)))
   \<and> RunSegment_toJSONObject (this\<lparr>tags := ts\<rparr>) = RunSegment_toJSONObject this"
  by (simp add: segmentFromSpec_def RunSegment_toJSONObject_def
      PaddingSegment_fromJSONObject_def RunSegment_fromJSONObject_def
      new_RunSegment_def addProperties_def Let_def split: option.split)

section \<open>The chain and its cells\<close>

lemma getLength_Nil [simp]: "getLength [] = 0"
  by (simp add: getLength_def)

lemma getLength_Cons [simp]: "getLength (s # c) = segment_cachedLength s + getLength c"
  by (simp add: getLength_def)

lemma getLength_append [simp]: "getLength (a @ b) = getLength a + getLength b"
  by (simp add: getLength_def)

lemma wf_chain_Nil [simp]: "wf_chain []"
  by (simp add: wf_chain_def)

lemma wf_chain_Cons [simp]: "wf_chain (s # c) = (wf_segment s \<and> wf_chain c)"
  by (simp add: wf_chain_def)

lemma wf_chain_append [simp]: "wf_chain (a @ b) = (wf_chain a \<and> wf_chain b)"
  by (simp add: wf_chain_def)

lemma chain_cells_Nil [simp]: "chain_cells [] = []"
  by (simp add: chain_cells_def)

lemma chain_cells_Cons [simp]: "chain_cells (s # c) = segment_cells s @ chain_cells c"
  by (simp add: chain_cells_def)

lemma chain_cells_append [simp]: "chain_cells (a @ b) = chain_cells a @ chain_cells b"
  by (simp add: chain_cells_def)

lemma length_segment_cells:
  "wf_segment s \<Longrightarrow> int (length (segment_cells s)) = segment_cachedLength s"
  by (cases s) simp_all

lemma segment_cachedLength_nonneg: "wf_segment s \<Longrightarrow> 0 \<le> segment_cachedLength s"
  by (cases s) simp_all

lemma getLength_cells: "wf_chain c \<Longrightarrow> getLength c = int (length (chain_cells c))"
  by (induction c) (simp_all add: length_segment_cells)

lemma getLength_nonneg: "wf_chain c \<Longrightarrow> 0 \<le> getLength c"
  by (simp add: getLength_cells)

lemma segment_splitAt_cells:
  assumes "wf_segment s" and "0 < pos" and "pos < segment_cachedLength s"
    and "segment_cachedLength s < 2 ^ 53"
  shows "\<exists>l r. segment_splitAt s pos = Some (l, r) \<and> wf_segment l \<and> wf_segment r
           \<and> segment_cells l = take (nat pos) (segment_cells s)
           \<and> segment_cells r = drop (nat pos) (segment_cells s)"
proof (cases s)
  case (Padding p)
  have "\<bar>cachedLength p - pos\<bar> < 2 ^ 53" using assms Padding by simp
  then have "num_sub (cachedLength p) pos = cachedLength p - pos" by (rule num_sub_exact)
  with assms Padding show ?thesis
    by (simp add: PaddingSegment_createSplitSegmentAt_def Let_def new_PaddingSegment_def
        min_def nat_diff_distrib)
next
  case (Run r)
  with assms show ?thesis
    by (simp add: RunSegment_createSplitSegmentAt_def Let_def new_RunSegment_def
        js_slice_from js_slice_upto js_set_length_take take_zip drop_zip take_map drop_map)
next
  case (Other b)
  with assms show ?thesis by simp
qed


lemma splitChain_cells:
  assumes "wf_chain c" and "0 \<le> pos" and "pos \<le> getLength c" and "getLength c < 2 ^ 53"
  shows "\<exists>a b. splitChain c pos = Some (a, b) \<and> wf_chain a \<and> wf_chain b
           \<and> chain_cells a = take (nat pos) (chain_cells c)
           \<and> chain_cells b = drop (nat pos) (chain_cells c)"
  using assms
proof (induction c arbitrary: pos)
  case Nil
  then show ?case by simp
next
  case (Cons s c)
  have wfs: "wf_segment s" and wfc: "wf_chain c" using Cons.prems(1) by simp_all
  have ls: "int (length (segment_cells s)) = segment_cachedLength s"
    using wfs by (rule length_segment_cells)
  have lc: "0 \<le> getLength c" using wfc by (rule getLength_nonneg)
  have ls0: "0 \<le> segment_cachedLength s" using wfs by (rule segment_cachedLength_nonneg)
  show ?case
  proof (cases "pos = 0")
    case True
    then show ?thesis using Cons.prems(1) by simp
  next
    case False
    with Cons.prems(2) have pos: "0 < pos" by simp
    show ?thesis
    proof (cases "segment_cachedLength s \<le> pos")
      case True
      have "\<exists>a b. splitChain c (pos - segment_cachedLength s) = Some (a, b)
            \<and> wf_chain a \<and> wf_chain b
            \<and> chain_cells a = take (nat (pos - segment_cachedLength s)) (chain_cells c)
            \<and> chain_cells b = drop (nat (pos - segment_cachedLength s)) (chain_cells c)"
        using wfc True Cons.prems ls0 by (intro Cons.IH) simp_all
      then obtain a b where ab: "splitChain c (pos - segment_cachedLength s) = Some (a, b)"
        "wf_chain a" "wf_chain b"
        "chain_cells a = take (nat (pos - segment_cachedLength s)) (chain_cells c)"
        "chain_cells b = drop (nat (pos - segment_cachedLength s)) (chain_cells c)"
        by blast
      have n: "nat (pos - segment_cachedLength s) = nat pos - length (segment_cells s)"
        using ls by linarith
      have le: "length (segment_cells s) \<le> nat pos" using ls True by linarith
      have "splitChain (s # c) pos = Some (s # a, b)" using pos True ab(1) by simp
      moreover have "chain_cells (s # a) = take (nat pos) (chain_cells (s # c))"
        using ab(4) n le by simp
      moreover have "chain_cells b = drop (nat pos) (chain_cells (s # c))"
        using ab(5) n le by simp
      ultimately show ?thesis using wfs ab(2,3) by simp
    next
      case False
      then have lt: "pos < segment_cachedLength s" by simp
      have "segment_cachedLength s < 2 ^ 53" using Cons.prems(4) lc by simp
      from segment_splitAt_cells [OF wfs pos lt this]
      obtain l r where lr: "segment_splitAt s pos = Some (l, r)" "wf_segment l" "wf_segment r"
        "segment_cells l = take (nat pos) (segment_cells s)"
        "segment_cells r = drop (nat pos) (segment_cells s)"
        by blast
      have le: "nat pos \<le> length (segment_cells s)" using ls lt by linarith
      have "splitChain (s # c) pos = Some ([l], r # c)" using pos lt lr(1) by simp
      moreover have "chain_cells [l] = take (nat pos) (chain_cells (s # c))"
        using lr(4) le by simp
      moreover have "chain_cells (r # c) = drop (nat pos) (chain_cells (s # c))"
        using lr(5) le by simp
      ultimately show ?thesis using wfc lr(2,3) by simp
    qed
  qed
qed

lemma insertSegmentLocal_cells:
  assumes "wf_chain c" and "wf_segment seg" and "0 \<le> pos" and "pos \<le> getLength c"
    and "getLength c < 2 ^ 53"
  shows "\<exists>c'. insertSegmentLocal c pos seg = Some c' \<and> wf_chain c'
           \<and> chain_cells c'
               = take (nat pos) (chain_cells c) @ segment_cells seg @ drop (nat pos) (chain_cells c)"
proof -
  from splitChain_cells [OF assms(1,3,4,5)]
  obtain a b where "splitChain c pos = Some (a, b)" "wf_chain a" "wf_chain b"
    "chain_cells a = take (nat pos) (chain_cells c)"
    "chain_cells b = drop (nat pos) (chain_cells c)"
    by blast
  then show ?thesis using assms(2) by (simp add: insertSegmentLocal_def)
qed

lemma removeRange_cells:
  assumes "wf_chain c" and "0 \<le> start" and "start \<le> end" and "end \<le> getLength c"
    and "getLength c < 2 ^ 53"
  shows "\<exists>c'. removeRange c start end = Some c' \<and> wf_chain c'
           \<and> chain_cells c' = take (nat start) (chain_cells c) @ drop (nat end) (chain_cells c)"
proof -
  have "start \<le> getLength c" using assms(3,4) by simp
  from splitChain_cells [OF assms(1,2) this assms(5)]
  obtain a rest where a: "splitChain c start = Some (a, rest)" "wf_chain a" "wf_chain rest"
    "chain_cells a = take (nat start) (chain_cells c)"
    "chain_cells rest = drop (nat start) (chain_cells c)"
    by blast
  have lr: "getLength rest = getLength c - start"
    using a(3,5) assms(1,2) \<open>start \<le> getLength c\<close> by (simp add: getLength_cells)
  have "0 \<le> end - start" "end - start \<le> getLength rest" "getLength rest < 2 ^ 53"
    using assms lr by simp_all
  from splitChain_cells [OF a(3) this]
  obtain b c2 where b: "splitChain rest (end - start) = Some (b, c2)" "wf_chain c2"
    "chain_cells c2 = drop (nat (end - start)) (chain_cells rest)"
    by blast
  have "nat (end - start) + nat start = nat end" using assms(2,3) by simp
  then have "chain_cells c2 = drop (nat end) (chain_cells c)"
    using b(3) a(5) by simp
  then show ?thesis using a b assms(3) by (simp add: removeRange_def)
qed


lemma getContainingSegment_SomeD:
  "getContainingSegment c pos = Some (i, seg, off) \<Longrightarrow>
     i < length c \<and> c ! i = seg \<and> 0 \<le> off \<and> off < segment_cachedLength seg"
proof (induction c arbitrary: pos i)
  case Nil
  then show ?case by simp
next
  case (Cons s c)
  show ?case
  proof (cases "pos < segment_cachedLength s")
    case True
    with Cons.prems show ?thesis by (simp split: if_splits)
  next
    case False
    with Cons.prems obtain j where j: "i = Suc j"
      "getContainingSegment c (pos - segment_cachedLength s) = Some (j, seg, off)"
      by (auto split: if_splits)
    from Cons.IH [OF j(2)] j(1) show ?thesis by simp
  qed
qed


lemma getContainingSegment_cells:
  assumes "wf_chain c" and "0 \<le> pos" and "pos < getLength c"
  shows "\<exists>i seg off. getContainingSegment c pos = Some (i, seg, off) \<and> wf_segment seg
           \<and> segment_cells seg ! nat off = chain_cells c ! nat pos"
  using assms
proof (induction c arbitrary: pos)
  case Nil
  then show ?case by simp
next
  case (Cons s c)
  have wfs: "wf_segment s" and wfc: "wf_chain c" using Cons.prems(1) by simp_all
  have ls: "int (length (segment_cells s)) = segment_cachedLength s"
    using wfs by (rule length_segment_cells)
  show ?case
  proof (cases "pos < segment_cachedLength s")
    case True
    then have "nat pos < length (segment_cells s)" using ls Cons.prems(2) by linarith
    then show ?thesis using True Cons.prems(2) wfs by (simp add: nth_append)
  next
    case False
    have "\<exists>i seg off. getContainingSegment c (pos - segment_cachedLength s) = Some (i, seg, off)
          \<and> wf_segment seg
          \<and> segment_cells seg ! nat off = chain_cells c ! nat (pos - segment_cachedLength s)"
      using wfc False Cons.prems by (intro Cons.IH) simp_all
    then obtain i seg off where
      g: "getContainingSegment c (pos - segment_cachedLength s) = Some (i, seg, off)"
      "wf_segment seg"
      "segment_cells seg ! nat off = chain_cells c ! nat (pos - segment_cachedLength s)"
      by blast
    have n: "nat (pos - segment_cachedLength s) = nat pos - length (segment_cells s)"
      using ls by linarith
    have "\<not> nat pos < length (segment_cells s)" using ls False by linarith
    then have "chain_cells (s # c) ! nat pos = chain_cells c ! nat (pos - segment_cachedLength s)"
      using n by (simp add: nth_append)
    then show ?thesis using g False Cons.prems(2) by simp
  qed
qed

lemma getItem_cells:
  assumes "wf_chain c" and "0 \<le> rowColToPosition row col"
    and "rowColToPosition row col < getLength c"
  shows "getItem row col c = Inr (cell_value (chain_cells c ! nat (rowColToPosition row col)))"
proof -
  from getContainingSegment_cells [OF assms]
  obtain i seg off where g: "getContainingSegment c (rowColToPosition row col) = Some (i, seg, off)"
    "wf_segment seg"
    "segment_cells seg ! nat off = chain_cells c ! nat (rowColToPosition row col)"
    by blast
  from getContainingSegment_SomeD [OF g(1)]
  have off: "0 \<le> off" "off < segment_cachedLength seg" by simp_all
  show ?thesis
  proof (cases seg)
    case (Padding p)
    with g off show ?thesis by (simp add: getItem_def Let_def)
  next
    case (Run r)
    with g off show ?thesis by (simp add: getItem_def Let_def js_index_def) (metis cell_value.simps(2) nat_less_iff)
  next
    case (Other b)
    with g show ?thesis by simp
  qed
qed

section \<open>Tags\<close>





section \<open>Rows\<close>

lemma numRows_exact:
  assumes "wf_chain c" and "getLength c < 2 ^ 53"
  shows "numRows c = getLength c div 2097153"
  using assms getLength_nonneg [OF assms(1)]
  by (simp add: numRows_def positionToRowCol_exact)

lemma insertRows_numRows:
  assumes wf: "wf_chain c" and r: "0 \<le> r" and n: "0 \<le> n"
    and fit: "r * maxCols \<le> getLength c"
    and small: "getLength c + n * maxCols < 2 ^ 53"
  shows "\<exists>c'. insertRows r n c = Inr c' \<and> wf_chain c'
           \<and> getLength c' = getLength c + n * maxCols
           \<and> numRows c' = numRows c + n"
proof -
  have L0: "0 \<le> getLength c" using wf by (rule getLength_nonneg)
  have nM: "0 \<le> n * 2097153" using n by simp
  have L: "getLength c < 2 ^ 53" using small nM by (simp add: maxCols_eq)
  have pos: "rowColToPosition r 0 = r * 2097153"
    using rowColToPosition_exact [of r 0] r fit L by (simp add: maxCols_eq)
  have "\<bar>2097153 * n\<bar> < 2 ^ 53" using small L0 n by (simp add: maxCols_eq)
  then have sz: "num_mul 2097153 n = 2097153 * n" by (simp add: num_mul_exact)
  have wfp: "wf_segment (Padding (new_PaddingSegment (2097153 * n) None None))"
    using n by (simp add: new_PaddingSegment_def)
  have "0 \<le> r * 2097153" using r by simp
  from insertSegmentLocal_cells [OF wf wfp this _ L]
  obtain c' where c': "insertSegmentLocal c (r * 2097153)
        (Padding (new_PaddingSegment (2097153 * n) None None)) = Some c'"
    "wf_chain c'"
    "chain_cells c' = take (nat (r * 2097153)) (chain_cells c)
        @ segment_cells (Padding (new_PaddingSegment (2097153 * n) None None))
        @ drop (nat (r * 2097153)) (chain_cells c)"
    using fit by (auto simp: maxCols_eq)
  have len: "getLength c' = getLength c + n * 2097153"
    using c'(2,3) wf n by (simp add: getLength_cells new_PaddingSegment_def)
  have "numRows c' = (getLength c + n * 2097153) div 2097153"
    using numRows_exact [OF c'(2)] small len by (simp add: maxCols_eq)
  also have "\<dots> = getLength c div 2097153 + n" by simp
  also have "\<dots> = numRows c + n" using numRows_exact [OF wf L] by simp
  finally have "numRows c' = numRows c + n" .
  then show ?thesis
    using c'(1,2) len by (simp add: insertRows_def Let_def pos sz engine_def maxCols_eq)
qed

lemma removeRows_numRows:
  assumes wf: "wf_chain c" and r: "0 \<le> r" and n: "0 \<le> n"
    and fit: "(r + n) * maxCols \<le> getLength c"
    and small: "getLength c < 2 ^ 53"
  shows "\<exists>c'. removeRows r n c = Inr c' \<and> wf_chain c'
           \<and> getLength c' = getLength c - n * maxCols
           \<and> numRows c' = numRows c - n"
proof -
  have fit': "r * 2097153 + n * 2097153 \<le> getLength c"
    using fit by (simp add: maxCols_eq algebra_simps)
  have r0: "0 \<le> r * 2097153" and n0: "0 \<le> n * 2097153" using r n by simp_all
  have pos: "rowColToPosition r 0 = r * 2097153"
    using rowColToPosition_exact [of r 0] r fit' n0 small by simp
  have "\<bar>2097153 * n\<bar> < 2 ^ 53" using fit' r0 n0 small by simp
  then have sz: "num_mul 2097153 n = 2097153 * n" by (simp add: num_mul_exact)
  have "\<bar>r * 2097153 + 2097153 * n\<bar> < 2 ^ 53" using fit' r0 n0 small by simp
  then have e: "num_add (r * 2097153) (2097153 * n) = r * 2097153 + 2097153 * n"
    by (rule num_add_exact)
  have "r * 2097153 \<le> r * 2097153 + 2097153 * n" using n0 by simp
  from removeRange_cells [OF wf r0 this _ small]
  obtain c' where c': "removeRange c (r * 2097153) (r * 2097153 + 2097153 * n) = Some c'"
    "wf_chain c'"
    "chain_cells c' = take (nat (r * 2097153)) (chain_cells c)
        @ drop (nat (r * 2097153 + 2097153 * n)) (chain_cells c)"
    using fit' by (auto simp: algebra_simps)
  have "int (length (chain_cells c)) = getLength c" using wf by (simp add: getLength_cells)
  then have len: "getLength c' = getLength c - n * 2097153"
    using c'(2,3) fit' r0 n0 by (simp add: getLength_cells)
  have L': "getLength c' < 2 ^ 53" using len small n0 by simp
  have "numRows c' = (getLength c - n * 2097153) div 2097153"
    using numRows_exact [OF c'(2) L'] len by simp
  also have "\<dots> = getLength c div 2097153 - n"
    using div_mult_self1 [of 2097153 "getLength c" "- n"] by (simp add: algebra_simps)
  also have "\<dots> = numRows c - n" using numRows_exact [OF wf small] by simp
  finally have "numRows c' = numRows c - n" .
  then show ?thesis
    using c'(1,2) len by (simp add: removeRows_def Let_def pos sz e engine_def maxCols_eq)
qed


text \<open>
  C8.  The row count is \<open>\<lfloor>totalLength / columnsPerRow\<rfloor>\<close>, computed from the chain and
  never stored; \<open>insertRows r n\<close> inserts one padding segment of length \<open>n * columnsPerRow\<close>
  at the start of row \<open>r\<close> and so raises the row count by exactly \<open>n\<close>, and \<open>removeRows r n\<close>
  lowers it by exactly \<open>n\<close>.  While the extent stays below \<open>2 ^ 53\<close> this is so (the lemmas
  \<open>numRows_exact\<close>, \<open>insertRows_numRows\<close>, \<open>removeRows_numRows\<close>).  Within the documented
  number of rows it is not: inserting \<open>4294967293\<close> rows into the empty matrix makes a
  padding segment one position short of that many rows, and the row count is \<open>4294967292\<close>.
\<close>

theorem insertRows_numRows_top:
  "numRows ([] :: string segment list) = 0
   \<and> insertRows 0 4294967293 ([] :: string segment list)
       = Inr [Padding (new_PaddingSegment 9007203543416828 None None)]
   \<and> numRows [Padding (new_PaddingSegment 9007203543416828 None None) :: string segment]
       = 4294967292
   \<and> (4294967293 :: int) * 2097153 = 9007203543416829"
  by code_simp

section \<open>Cells\<close>

lemma replaceRange_cells:
  assumes "wf_chain c" and "wf_segment seg" and "0 \<le> start" and "start \<le> end"
    and "end \<le> getLength c" and "getLength c < 2 ^ 53"
  shows "\<exists>c'. replaceRange c start end seg = Some c' \<and> wf_chain c'
           \<and> chain_cells c'
               = take (nat start) (chain_cells c) @ segment_cells seg
                 @ drop (nat end) (chain_cells c)"
proof -
  from removeRange_cells [OF assms(1,3,4,5,6)]
  obtain c1 where c1: "removeRange c start end = Some c1" "wf_chain c1"
    "chain_cells c1 = take (nat start) (chain_cells c) @ drop (nat end) (chain_cells c)"
    by blast
  have lc: "int (length (chain_cells c)) = getLength c"
    using assms(1) by (simp add: getLength_cells)
  have l1: "getLength c1 = getLength c - (end - start)"
    using c1(2,3) lc assms(3,4,5) by (simp add: getLength_cells)
  have "start \<le> getLength c1" "getLength c1 < 2 ^ 53" using l1 assms by simp_all
  from insertSegmentLocal_cells [OF c1(2) assms(2,3) this]
  obtain c' where c': "insertSegmentLocal c1 start seg = Some c'" "wf_chain c'"
    "chain_cells c' = take (nat start) (chain_cells c1) @ segment_cells seg
        @ drop (nat start) (chain_cells c1)"
    by blast
  have "nat start \<le> length (chain_cells c)" using lc assms(3,4,5) by linarith
  then have "take (nat start) (chain_cells c1) = take (nat start) (chain_cells c)"
    "drop (nat start) (chain_cells c1) = drop (nat end) (chain_cells c)"
    by (simp_all add: c1(3))
  then show ?thesis using c1(1) c' by (simp add: replaceRange_def)
qed

text \<open>
  C1.  After \<open>setItems row col values\<close>, \<open>getItem row (col + i)\<close> is \<open>values ! i\<close> for every
  index \<open>i\<close> of \<open>values\<close>, and a cell that no written run covers reads as absent.  Proved
  for a matrix whose extent is below \<open>2 ^ 53\<close> and holds the written range: the written
  cells read back, and every other cell of the extent reads what it read before the call,
  so a cell that was never written still reads as absent.
\<close>

theorem setItems_getItem:
  assumes wf: "wf_chain c" and small: "getLength c < 2 ^ 53"
    and row: "0 \<le> row" and col: "0 \<le> col"
    and fit: "row * maxCols + col + int (length values) \<le> getLength c"
  shows "\<exists>c'. setItems row col values propsArg c = Inr c' \<and> wf_chain c'
           \<and> getLength c' = getLength c
           \<and> (\<forall>i < length values. getItem row (col + int i) c' = Inr (values ! i))
           \<and> (\<forall>row' col'. 0 \<le> row' \<and> 0 \<le> col' \<and> row' * maxCols + col' < getLength c
                 \<and> (row' * maxCols + col' < row * maxCols + col
                      \<or> row * maxCols + col + int (length values) \<le> row' * maxCols + col')
                 \<longrightarrow> getItem row' col' c' = getItem row' col' c)
           \<and> (\<forall>row' col' i seg off. getSegment row' col' c' = Some (i, seg, off)
                 \<and> \<not> RunSegment_is seg \<longrightarrow> getItem row' col' c' = Inr Undefined)"
proof -
  define start where "start = row * 2097153 + col"
  define n where "n = length values"
  define seg :: "'a runSegment" where
    "seg = (case propsArg of None \<Rightarrow> new_RunSegment values None None
            | Some ps \<Rightarrow> addProperties ps (new_RunSegment values None None))"
  have fit': "start + int n \<le> getLength c"
    using fit by (simp add: start_def n_def maxCols_eq)
  have s0: "0 \<le> start" using row col by (simp add: start_def)
  have pos: "rowColToPosition row col = start"
    unfolding start_def using row col fit' small
    by (intro rowColToPosition_exact) (simp_all add: start_def)
  have "\<bar>start + int n\<bar> < 2 ^ 53" using s0 fit' small by simp
  then have e: "num_add start (int n) = start + int n" by (rule num_add_exact)
  have wfseg: "wf_segment (Run seg)"
    by (simp add: seg_def new_RunSegment_def addProperties_def split: option.split)
  have cells_seg: "segment_cells (Run seg) = map (\<lambda>v. Filled v None) values"
    by (simp add: seg_def new_RunSegment_def addProperties_def zip_replicate2 map_idI
        split: option.split)
  from replaceRange_cells [OF wf wfseg s0 _ fit' small]
  obtain c' where c': "replaceRange c start (start + int n) (Run seg) = Some c'" "wf_chain c'"
    "chain_cells c' = take (nat start) (chain_cells c) @ segment_cells (Run seg)
        @ drop (nat (start + int n)) (chain_cells c)"
    by auto
  have lc: "int (length (chain_cells c)) = getLength c" using wf by (simp add: getLength_cells)
  have ns: "nat start + n \<le> length (chain_cells c)" using lc fit' s0 by linarith
  have cells: "chain_cells c' = take (nat start) (chain_cells c)
        @ map (\<lambda>v. Filled v None) values @ drop (nat start + n) (chain_cells c)"
    using c'(3) [unfolded cells_seg] s0 by (simp add: nat_add_distrib)
  have len: "getLength c' = getLength c"
    using c'(2) cells ns lc by (simp add: getLength_cells n_def)
  have set: "setItems row col values propsArg c = Inr c'"
    using c'(1) by (simp add: setItems_def Let_def pos e [unfolded n_def] seg_def engine_def n_def)
  have rd: "getItem row (col + int i) c' = Inr (values ! i)" if "i < length values" for i
  proof -
    have i: "int i < int n" using that by (simp add: n_def)
    have "row * 2097153 + (col + int i) < 2 ^ 53" using fit' small i by (simp add: start_def)
    then have p: "rowColToPosition row (col + int i) = start + int i"
      using row col by (simp add: rowColToPosition_exact start_def)
    have "getItem row (col + int i) c'
        = Inr (cell_value (chain_cells c' ! nat (rowColToPosition row (col + int i))))"
      using c'(2) s0 i fit' by (intro getItem_cells) (simp_all add: p len)
    also have "nat (start + int i) = nat start + i" using s0 by (simp add: nat_add_distrib)
    then have "chain_cells c' ! nat (rowColToPosition row (col + int i))
        = Filled (values ! i) None"
      using that ns by (simp add: p cells nth_append n_def)
    finally show ?thesis by simp
  qed
  have fr: "getItem row' col' c' = getItem row' col' c"
    if h: "0 \<le> row' \<and> 0 \<le> col' \<and> row' * maxCols + col' < getLength c
          \<and> (row' * maxCols + col' < row * maxCols + col
               \<or> row * maxCols + col + int (length values) \<le> row' * maxCols + col')"
    for row' col'
  proof -
    define q where "q = row' * 2097153 + col'"
    have q: "0 \<le> q" "q < getLength c" "q < start \<or> start + int n \<le> q"
      using h by (simp_all add: q_def start_def n_def maxCols_eq)
    have p: "rowColToPosition row' col' = q"
      unfolding q_def using h small
      by (intro rowColToPosition_exact) (simp_all add: maxCols_eq)
    have a: "getItem row' col' c' = Inr (cell_value (chain_cells c' ! nat q))"
      using c'(2) q by (simp add: getItem_cells p len)
    have b: "getItem row' col' c = Inr (cell_value (chain_cells c ! nat q))"
      using wf q by (simp add: getItem_cells p)
    have "chain_cells c' ! nat q = chain_cells c ! nat q"
    proof (cases "q < start")
      case True
      then have "nat q < nat start" using q(1) by linarith
      then show ?thesis using ns by (simp add: cells nth_append)
    next
      case False
      with q(3) have ge: "start + int n \<le> q" by simp
      then have g: "nat start + length values \<le> nat q" using s0 by (simp add: n_def)
      then have "\<not> nat q < nat start" "\<not> nat q - nat start < length values" by linarith+
      moreover have "nat start + length values + (nat q - nat start - length values) = nat q"
        using g by linarith
      ultimately show ?thesis
        using ns [unfolded n_def] by (simp add: cells [unfolded n_def] nth_append)
    qed
    with a b show ?thesis by simp
  qed
  have pd: "getItem row' col' c' = Inr Undefined"
    if h: "getSegment row' col' c' = Some (i, seg, off) \<and> \<not> RunSegment_is seg"
    for row' col' i seg off
  proof -
    from h have g: "getContainingSegment c' (rowColToPosition row' col') = Some (i, seg, off)"
      by (simp add: getSegment_def)
    from getContainingSegment_SomeD [OF g] have "i < length c'" "c' ! i = seg" by simp_all
    with c'(2) have "wf_segment seg" by (auto simp: wf_chain_def list_all_length)
    with h obtain p where "seg = Padding p" by (cases seg) auto
    with g show ?thesis by (simp add: getItem_def)
  qed
  from set c'(2) len rd fr pd show ?thesis by blast
qed

theorem setItems_getItem_witness:
  "wf_chain exampleRow \<and> getLength exampleRow < 2 ^ 53
   \<and> 0 * maxCols + 0 + int (length [Text ''a'', Text ''b'', Text ''c'']) \<le> getLength exampleRow
   \<and> (\<exists>c'. setItems 0 0 [Text ''a'', Text ''b'', Text ''c''] None exampleRow = Inr c'
          \<and> getItem 0 0 c' = Inr (Text ''a'')
          \<and> getItem 0 1 c' = Inr (Text ''b'')
          \<and> getItem 0 2 c' = Inr (Text ''c'')
          \<and> getItem 0 3 c' = Inr Undefined)"
proof -
  have h1: "wf_chain exampleRow" by (simp add: exampleRow_def new_PaddingSegment_def)
  have h2: "getLength exampleRow < 2 ^ 53" by (simp add: exampleRow_def new_PaddingSegment_def)
  have h3: "(0::int) \<le> 0" by simp
  have h4: "0 * maxCols + 0 + int (length [Text ''a'', Text ''b'', Text ''c''])
      \<le> getLength exampleRow"
    by (simp add: exampleRow_def new_PaddingSegment_def)
  have old: "getItem 0 3 exampleRow = Inr Undefined"
    by (simp add: getItem_def Let_def rowColToPosition_exact exampleRow_def
        new_PaddingSegment_def)
  from setItems_getItem [OF h1 h2 h3 h3 h4, of None]
  obtain c' where c': "setItems 0 0 [Text ''a'', Text ''b'', Text ''c''] None exampleRow = Inr c'"
    and rd: "\<forall>i < length [Text ''a'', Text ''b'', Text ''c''].
        getItem 0 (0 + int i) c' = Inr ([Text ''a'', Text ''b'', Text ''c''] ! i)"
    and fr: "\<forall>row' col'. 0 \<le> row' \<and> 0 \<le> col' \<and> row' * maxCols + col' < getLength exampleRow
        \<and> (row' * maxCols + col' < 0 * maxCols + 0
             \<or> 0 * maxCols + 0 + int (length [Text ''a'', Text ''b'', Text ''c''])
                  \<le> row' * maxCols + col')
        \<longrightarrow> getItem row' col' c' = getItem row' col' exampleRow"
    by blast
  from rd [rule_format, of 0] rd [rule_format, of 1] rd [rule_format, of 2]
  have r: "getItem 0 0 c' = Inr (Text ''a'')" "getItem 0 1 c' = Inr (Text ''b'')"
    "getItem 0 2 c' = Inr (Text ''c'')"
    by simp_all
  from fr [rule_format, of 0 3]
  have "getItem 0 3 c' = getItem 0 3 exampleRow"
    by (simp add: exampleRow_def new_PaddingSegment_def)
  with old have "getItem 0 3 c' = Inr Undefined" by simp
  with h1 h2 h4 c' r show ?thesis by blast
qed

text \<open>
  A cell outside the extent is covered by no segment, and \<open>getItem\<close> does not return for
  it: in a matrix of one row, the cell \<open>(1, 0)\<close> after a write to \<open>(0, 0)\<close>.  And in the
  last row of the documented range the positions of neighbouring cells are no longer
  distinct numbers: the second of two values written at the start of row \<open>maxRow\<close> does
  not read back, the first one is returned in its place.
\<close>

theorem setItems_getItem_outside:
  "insertRows 0 1 [] = Inr exampleRow
   \<and> setItems 0 0 [Text ''a''] None exampleRow = Inr exampleRowWritten
   \<and> getItem 0 0 exampleRowWritten = Inr (Text ''a'')
   \<and> getItem 1 0 exampleRowWritten = Inl OutsideExtent
   \<and> insertRows 0 4294967296 [] = Inr topChain
   \<and> setItems 4294967295 0 [Text ''a'', Text ''b''] None topChain = Inr topChainWritten
   \<and> getItem 4294967295 (num_add 0 1) topChainWritten = Inr (Text ''a'')
   \<and> [Text ''a'', Text ''b''] ! 1 = Text ''b''"
  by code_simp

section \<open>Columns\<close>

lemma move_step_length:
  fixes xs :: "'a list"
  assumes "c \<le> a" and "rs + a + n \<le> length xs"
  shows "length (take (rs + c) (take (rs + a) xs @ drop (rs + a + n) xs) @ replicate n e
            @ drop (rs + c) (take (rs + a) xs @ drop (rs + a + n) xs)) = length xs"
  using assms by simp

lemma move_step_nth:
  fixes xs :: "'a list"
  assumes "c \<le> a" and "rs + a + n \<le> length xs" and "p < length xs"
  shows "(take (rs + c) (take (rs + a) xs @ drop (rs + a + n) xs) @ replicate n e
            @ drop (rs + c) (take (rs + a) xs @ drop (rs + a + n) xs)) ! p
         = (if p < rs + c then xs ! p
            else if p < rs + c + n then e
            else if p < rs + a + n then xs ! (p - n)
            else xs ! p)"
proof -
  define ys where "ys = take (rs + a) xs @ drop (rs + a + n) xs"
  have ly: "length ys = length xs - n" using assms(2) by (simp add: ys_def)
  have ys: "ys ! q = (if q < rs + a then xs ! q else xs ! (q + n))" if "q < length ys" for q
    using that assms(2) by (auto simp: ys_def nth_append add.commute add.left_commute)
  have c: "rs + c \<le> length ys" using ly assms(1,2) by simp
  show ?thesis
  proof (cases "p < rs + c")
    case True
    then have "p < length ys" "p < rs + a" using c assms(1) by simp_all
    with True c show ?thesis unfolding ys_def [symmetric] by (simp add: nth_append ys)
  next
    case False
    show ?thesis
    proof (cases "p < rs + c + n")
      case True
      with False have "p - (rs + c) < n" by linarith
      with True False c show ?thesis unfolding ys_def [symmetric]
        by (simp add: nth_append min_def)
    next
      case False
      then have pn: "rs + c + n \<le> p" by simp
      then have q: "p - n < length ys" "rs + c \<le> p - n" using ly assms(3) by simp_all
      have "(take (rs + c) ys @ replicate n e @ drop (rs + c) ys) ! p = ys ! (p - n)"
      proof -
        have 1: "\<not> p < rs + c" "\<not> p - (rs + c) < n" using pn by linarith+
        have 2: "rs + c + (p - (rs + c) - n) = p - n" using pn by linarith
        show ?thesis using 1 2 c by (simp add: nth_append min_def)
      qed
      also have "\<dots> = (if p - n < rs + a then xs ! (p - n) else xs ! (p - n + n))"
        using q(1) by (rule ys)
      finally show ?thesis unfolding ys_def [symmetric] using pn by auto
    qed
  qed
qed


lemma mod_in_row:
  fixes p r :: nat
  assumes "r * 2097153 \<le> p" and "p < r * 2097153 + 2097153"
  shows "p mod 2097153 = p - r * 2097153"
proof -
  have "p = (p - r * 2097153) + r * 2097153" using assms(1) by simp
  then have "p mod 2097153 = (p - r * 2097153) mod 2097153"
    by (metis mod_mult_self1 mult.commute)
  also have "\<dots> = p - r * 2097153" using assms(2) by simp
  finally show ?thesis .
qed

lemma movedRows_step:
  fixes xs old :: "'t cell list"
  assumes inv: "\<forall>p < length xs. xs ! p = movedRows r c n old p"
    and cn: "c + n \<le> 2097152"
    and fit: "r * 2097153 + 2097153 \<le> length xs"
    and p: "p < length xs"
  shows "(take (r * 2097153 + c)
            (take (r * 2097153 + (2097152 - n)) xs
             @ drop (r * 2097153 + (2097152 - n) + n) xs)
          @ replicate n Empty
          @ drop (r * 2097153 + c)
              (take (r * 2097153 + (2097152 - n)) xs
               @ drop (r * 2097153 + (2097152 - n) + n) xs)) ! p
         = movedRows (Suc r) c n old p"
proof -
  define rs where "rs = r * 2097153"
  have a: "c \<le> 2097152 - n" "rs + (2097152 - n) + n \<le> length xs"
    using cn fit by (simp_all add: rs_def)
  have an: "rs + (2097152 - n) + n = rs + 2097152" using cn by simp
  have step: "(take (rs + c) (take (rs + (2097152 - n)) xs @ drop (rs + (2097152 - n) + n) xs)
          @ replicate n Empty
          @ drop (rs + c) (take (rs + (2097152 - n)) xs @ drop (rs + (2097152 - n) + n) xs)) ! p
      = (if p < rs + c then xs ! p
         else if p < rs + c + n then Empty
         else if p < rs + 2097152 then xs ! (p - n)
         else xs ! p)"
    using move_step_nth [OF a p, of Empty] by (simp only: an)
  have xp: "xs ! p = movedRows r c n old p" using inv p by simp
  have S: "Suc r * 2097153 = rs + 2097153" by (simp add: rs_def)
  consider "p < rs" | "rs \<le> p" "p < rs + 2097153" | "rs + 2097153 \<le> p" by linarith
  then have "(if p < rs + c then xs ! p
         else if p < rs + c + n then Empty
         else if p < rs + 2097152 then xs ! (p - n)
         else xs ! p) = movedRows (Suc r) c n old p"
  proof cases
    case 1
    then show ?thesis using xp by (simp add: movedRows_def S rs_def)
  next
    case 2
    have m: "p mod 2097153 = p - rs" using 2 unfolding rs_def by (rule mod_in_row)
    have old_p: "xs ! p = old ! p" using xp 2(1) by (simp add: movedRows_def rs_def)
    have old_pn: "xs ! (p - n) = old ! (p - n)" if "rs + c + n \<le> p"
    proof -
      have "p - n < length xs" using p by simp
      then have "xs ! (p - n) = movedRows r c n old (p - n)" using inv by simp
      moreover have "\<not> p - n < r * 2097153" using that by (simp add: rs_def)
      ultimately show ?thesis by (simp add: movedRows_def)
    qed
    have lt: "p < Suc r * 2097153" using 2(2) S by simp
    show ?thesis
    proof (cases "p < rs + c")
      case True
      then have "p - rs < c" using 2(1) by linarith
      with True lt show ?thesis by (simp add: movedRows_def movedCell_def m old_p)
    next
      case nc: False
      show ?thesis
      proof (cases "p < rs + c + n")
        case True
        then have "\<not> p - rs < c" "p - rs < c + n" using nc 2(1) by linarith+
        with True nc lt show ?thesis by (simp add: movedRows_def movedCell_def m)
      next
        case ncn: False
        then have ge: "rs + c + n \<le> p" by simp
        have 3: "\<not> p - rs < c" "\<not> p - rs < c + n" using ge by linarith+
        show ?thesis
        proof (cases "p < rs + 2097152")
          case True
          then have "p - rs < 2097152" using 2(1) by linarith
          with True nc ncn lt 3 show ?thesis
            by (simp add: movedRows_def movedCell_def m old_pn [OF ge])
        next
          case False
          then have "\<not> p - rs < 2097152" by linarith
          with False nc ncn lt 3 show ?thesis
            by (simp add: movedRows_def movedCell_def m old_p)
        qed
      qed
    qed
  next
    case 3
    then have "\<not> p < rs + c" "\<not> p < rs + c + n" "\<not> p < rs + 2097152" using cn by linarith+
    moreover have "\<not> p < Suc r * 2097153" "\<not> p < r * 2097153" using 3 S by (simp_all add: rs_def)
    ultimately show ?thesis using xp by (simp add: movedRows_def)
  qed
  with step show ?thesis by (simp add: rs_def)
qed


lemma moveAsPadding_turn:
  assumes wf: "wf_chain ch" and L: "getLength ch < 2 ^ 53"
    and c: "0 \<le> c" and n: "0 \<le> n" and cn: "c + n \<le> 2097152"
    and r: "0 \<le> r" and fit: "r * 2097153 + 2097153 \<le> getLength ch"
  shows "\<exists>ch1 ch2.
           removeRange ch (num_add (r * 2097153) (2097152 - n)) (num_add (r * 2097153) 2097152)
             = Some ch1
           \<and> insertSegmentLocal ch1 (num_add (r * 2097153) c)
                (Padding (new_PaddingSegment n (Some UniversalSequenceNumber)
                   (Some LocalClientId))) = Some ch2
           \<and> wf_chain ch2
           \<and> chain_cells ch2
               = take (nat r * 2097153 + nat c)
                   (take (nat r * 2097153 + (2097152 - nat n)) (chain_cells ch)
                    @ drop (nat r * 2097153 + (2097152 - nat n) + nat n) (chain_cells ch))
                 @ replicate (nat n) Empty
                 @ drop (nat r * 2097153 + nat c)
                     (take (nat r * 2097153 + (2097152 - nat n)) (chain_cells ch)
                      @ drop (nat r * 2097153 + (2097152 - nat n) + nat n) (chain_cells ch))"
proof -
  define rs where "rs = r * 2097153"
  have rs0: "0 \<le> rs" using r by (simp add: rs_def)
  have fit': "rs + 2097153 \<le> getLength ch" using fit by (simp add: rs_def)
  have e1: "num_add rs (2097152 - n) = rs + (2097152 - n)"
    using rs0 fit' L n cn c by (intro num_add_exact) simp
  have e2: "num_add rs 2097152 = rs + 2097152"
    using rs0 fit' L by (intro num_add_exact) simp
  have e3: "num_add rs c = rs + c"
    using rs0 fit' L n cn c by (intro num_add_exact) simp
  have "0 \<le> rs + (2097152 - n)" "rs + (2097152 - n) \<le> rs + 2097152"
    "rs + 2097152 \<le> getLength ch"
    using rs0 n cn c fit' by simp_all
  from removeRange_cells [OF wf this L]
  obtain ch1 where ch1: "removeRange ch (rs + (2097152 - n)) (rs + 2097152) = Some ch1"
    "wf_chain ch1"
    "chain_cells ch1 = take (nat (rs + (2097152 - n))) (chain_cells ch)
        @ drop (nat (rs + 2097152)) (chain_cells ch)"
    by blast
  have lc: "int (length (chain_cells ch)) = getLength ch" using wf by (simp add: getLength_cells)
  have l1: "getLength ch1 = getLength ch - n"
    using ch1(2,3) lc rs0 n cn c fit' by (simp add: getLength_cells)
  have wfp: "wf_segment (Padding (new_PaddingSegment n (Some UniversalSequenceNumber)
      (Some LocalClientId)))"
    using n by (simp add: new_PaddingSegment_def)
  have "0 \<le> rs + c" "rs + c \<le> getLength ch1" "getLength ch1 < 2 ^ 53"
    using rs0 c cn n fit' l1 L by simp_all
  from insertSegmentLocal_cells [OF ch1(2) wfp this]
  obtain ch2 where ch2: "insertSegmentLocal ch1 (rs + c)
        (Padding (new_PaddingSegment n (Some UniversalSequenceNumber) (Some LocalClientId)))
        = Some ch2"
    "wf_chain ch2"
    "chain_cells ch2 = take (nat (rs + c)) (chain_cells ch1)
        @ segment_cells (Padding (new_PaddingSegment n (Some UniversalSequenceNumber)
            (Some LocalClientId)))
        @ drop (nat (rs + c)) (chain_cells ch1)"
    by blast
  have n1: "nat (rs + (2097152 - n)) = nat r * 2097153 + (2097152 - nat n)"
    using r n cn c by (simp add: rs_def nat_add_distrib nat_mult_distrib nat_diff_distrib)
  have n2: "nat (rs + 2097152) = nat r * 2097153 + (2097152 - nat n) + nat n"
    using r n cn c by (simp add: rs_def nat_add_distrib nat_mult_distrib)
  have n3: "nat (rs + c) = nat r * 2097153 + nat c"
    using r c by (simp add: rs_def nat_add_distrib nat_mult_distrib)
  show ?thesis
    using ch1(1) ch2(1,2) ch2(3) [unfolded ch1(3) n1 n2 n3]
    unfolding rs_def [symmetric] e1 e2 e3
    by (simp add: new_PaddingSegment_def)
qed


lemma moveAsPadding_loop_cells:
  assumes "wf_chain ch" and "getLength ch < 2 ^ 53"
    and "0 \<le> c" and "0 \<le> n" and "c + n \<le> 2097152"
    and "0 \<le> r" and "r \<le> getLength ch div 2097153"
    and "\<forall>p < length (chain_cells ch).
           chain_cells ch ! p = movedRows (nat r) (nat c) (nat n) old p"
  shows "\<exists>ch'. moveAsPadding_loop (2097152 - n) 2097152 c n r (r * 2097153) ch = Some (Inr ch')
           \<and> wf_chain ch' \<and> getLength ch' = getLength ch
           \<and> (\<forall>p < length (chain_cells ch).
                 chain_cells ch' ! p
                   = movedRows (nat (getLength ch div 2097153)) (nat c) (nat n) old p)"
  using assms
proof (induction k \<equiv> "nat (getLength ch div 2097153 - r)" arbitrary: r ch)
  case 0
  then have r: "r = getLength ch div 2097153" by simp
  have "numRows ch = getLength ch div 2097153"
    using "0.prems"(1,2) by (rule numRows_exact)
  then have "moveAsPadding_loop (2097152 - n) 2097152 c n r (r * 2097153) ch = Some (Inr ch)"
    by (subst moveAsPadding_loop.simps) (simp add: r)
  then show ?case using "0.prems" by (simp add: r)
next
  case (Suc k)
  define R where "R = getLength ch div 2097153"
  have wf: "wf_chain ch" and L: "getLength ch < 2 ^ 53" using Suc.prems by simp_all
  have rR: "r < R" using Suc.hyps(2) by (simp add: R_def)
  have RL: "R * 2097153 \<le> getLength ch"
    unfolding R_def using div_mult_mod_eq [of "getLength ch" 2097153]
      pos_mod_sign [of 2097153 "getLength ch"] by linarith
  have "(r + 1) * 2097153 \<le> R * 2097153" using rR by simp
  then have fit: "r * 2097153 + 2097153 \<le> getLength ch" using RL by (simp add: algebra_simps)
  have r0: "0 \<le> r" using Suc.prems by simp
  from moveAsPadding_turn [OF wf L Suc.prems(3,4,5) r0 fit]
  obtain ch1 ch2 where
    t1: "removeRange ch (num_add (r * 2097153) (2097152 - n)) (num_add (r * 2097153) 2097152)
          = Some ch1"
    and t2: "insertSegmentLocal ch1 (num_add (r * 2097153) c)
          (Padding (new_PaddingSegment n (Some UniversalSequenceNumber) (Some LocalClientId)))
          = Some ch2"
    and wf2: "wf_chain ch2"
    and cells2: "chain_cells ch2
        = take (nat r * 2097153 + nat c)
            (take (nat r * 2097153 + (2097152 - nat n)) (chain_cells ch)
             @ drop (nat r * 2097153 + (2097152 - nat n) + nat n) (chain_cells ch))
          @ replicate (nat n) Empty
          @ drop (nat r * 2097153 + nat c)
              (take (nat r * 2097153 + (2097152 - nat n)) (chain_cells ch)
               @ drop (nat r * 2097153 + (2097152 - nat n) + nat n) (chain_cells ch))"
    by blast
  have lc: "int (length (chain_cells ch)) = getLength ch" using wf by (simp add: getLength_cells)
  have cn': "nat c + nat n \<le> 2097152" using Suc.prems(3,4,5) by linarith
  have fit': "nat r * 2097153 + 2097153 \<le> length (chain_cells ch)"
    using fit lc r0 by linarith
  have a: "nat c \<le> 2097152 - nat n"
    "nat r * 2097153 + (2097152 - nat n) + nat n \<le> length (chain_cells ch)"
    using cn' fit' by simp_all
  have len2: "length (chain_cells ch2) = length (chain_cells ch)"
    unfolding cells2 by (rule move_step_length [OF a])
  then have L2: "getLength ch2 = getLength ch" using wf wf2 by (simp add: getLength_cells)
  have inv2: "\<forall>p < length (chain_cells ch2).
      chain_cells ch2 ! p = movedRows (nat (r + 1)) (nat c) (nat n) old p"
  proof (intro allI impI)
    fix p assume "p < length (chain_cells ch2)"
    then have p: "p < length (chain_cells ch)" using len2 by simp
    have "nat (r + 1) = Suc (nat r)" using r0 by simp
    then show "chain_cells ch2 ! p = movedRows (nat (r + 1)) (nat c) (nat n) old p"
      unfolding cells2 using movedRows_step [OF Suc.prems(8) cn' fit' p] by simp
  qed
  have k: "k = nat (getLength ch2 div 2097153 - (r + 1))" using Suc.hyps(2) L2 by simp
  have "r + 1 \<le> getLength ch2 div 2097153" using rR L2 by (simp add: R_def)
  from Suc.hyps(1) [OF k wf2 _ Suc.prems(3,4,5) _ this inv2] L L2 r0
  obtain ch' where ch': "moveAsPadding_loop (2097152 - n) 2097152 c n (r + 1)
        ((r + 1) * 2097153) ch2 = Some (Inr ch')"
    "wf_chain ch'" "getLength ch' = getLength ch2"
    "\<forall>p < length (chain_cells ch2). chain_cells ch' ! p
        = movedRows (nat (getLength ch2 div 2097153)) (nat c) (nat n) old p"
    by auto
  have nr: "numRows ch = R" unfolding R_def using wf L by (rule numRows_exact)
  have "\<bar>r + 1\<bar> < 2 ^ 53" using r0 rR RL L by simp
  then have e1: "num_add r 1 = r + 1" by (rule num_add_exact)
  have "\<bar>r * 2097153 + 2097153\<bar> < 2 ^ 53" using r0 fit L by simp
  then have e2: "num_add (r * 2097153) 2097153 = (r + 1) * 2097153"
    by (simp add: num_add_exact algebra_simps)
  have "moveAsPadding_loop (2097152 - n) 2097152 c n r (r * 2097153) ch
      = moveAsPadding_loop (2097152 - n) 2097152 c n (r + 1) ((r + 1) * 2097153) ch2"
    by (subst moveAsPadding_loop.simps) (simp add: nr rR t1 t2 e1 e2 maxCols_eq Let_def)
  then show ?case using ch' L2 len2 by simp
qed


lemma movedRows_in_row:
  fixes row col :: nat
  assumes "row < R" and "col < 2097153"
  shows "movedRows R c n old (row * 2097153 + col)
         = (if col < c then old ! (row * 2097153 + col)
            else if col < c + n then Empty
            else if col < 2097152 then old ! (row * 2097153 + col - n)
            else old ! (row * 2097153 + col))"
proof -
  have "Suc row \<le> R" using assms(1) by simp
  then have "Suc row * 2097153 \<le> R * 2097153" by (rule mult_le_mono1)
  then have lt: "row * 2097153 + col < R * 2097153" using assms(2) by simp
  have "(row * 2097153 + col) mod 2097153 = col" using assms(2) by simp
  then show ?thesis using lt by (simp add: movedRows_def movedCell_def)
qed

lemma movedRows_row_cells:
  fixes old xs :: "'t cell list"
  assumes len: "length xs = length old"
    and inv: "\<forall>p < length old. xs ! p = movedRows R c n old p"
    and row: "row < R" and fit: "R * 2097153 \<le> length old"
    and cn: "c + n \<le> 2097152"
  shows "take 2097153 (drop (row * 2097153) xs)
         = take c (take 2097153 (drop (row * 2097153) old))
           @ replicate n Empty
           @ drop c (take (2097152 - n) (take 2097153 (drop (row * 2097153) old)))
           @ drop 2097152 (take 2097153 (drop (row * 2097153) old))"
proof -
  define rs where "rs = row * 2097153"
  define Old where "Old = take 2097153 (drop rs old)"
  have "Suc row \<le> R" using row by simp
  then have "Suc row * 2097153 \<le> R * 2097153" by (rule mult_le_mono1)
  then have in_old: "rs + 2097153 \<le> length old" using fit by (simp add: rs_def)
  have lOld: "length Old = 2097153" using in_old by (simp add: Old_def)
  have Old: "Old ! i = old ! (rs + i)" if "i < 2097153" for i
    using that in_old by (simp add: Old_def)
  have lX: "length (take 2097153 (drop rs xs)) = 2097153" using in_old len by simp
  have X: "take 2097153 (drop rs xs) ! i = movedRows R c n old (rs + i)" if "i < 2097153" for i
    using that in_old len inv by simp
  define Y where "Y = take c Old @ replicate n Empty @ drop c (take (2097152 - n) Old) @ drop 2097152 Old"
  have lY: "length Y = 2097153" using lOld cn by (simp add: Y_def)
  have "take 2097153 (drop rs xs) = Y"
  proof (rule nth_equalityI)
    show "length (take 2097153 (drop rs xs)) = length Y" using lX lY by simp
  next
    fix i assume "i < length (take 2097153 (drop rs xs))"
    then have i: "i < 2097153" using lX by simp
    have m: "movedRows R c n old (rs + i)
        = (if i < c then old ! (rs + i)
           else if i < c + n then Empty
           else if i < 2097152 then old ! (rs + i - n)
           else old ! (rs + i))"
      unfolding rs_def using row i by (rule movedRows_in_row)
    have y: "Y ! i = (if i < c then old ! (rs + i)
           else if i < c + n then Empty
           else if i < 2097152 then old ! (rs + i - n)
           else old ! (rs + i))"
    proof (cases "i < c")
      case True
      then show ?thesis using lOld cn i by (simp add: Y_def nth_append Old)
    next
      case nc: False
      show ?thesis
      proof (cases "i < c + n")
        case True
        then have "i - c < n" using nc by linarith
        with True nc show ?thesis using lOld cn by (simp add: Y_def nth_append)
      next
        case ncn: False
        have 1: "\<not> i - c < n" using ncn nc by linarith
        show ?thesis
        proof (cases "i < 2097152")
          case True
          then have 2: "i - c - n < 2097152 - n - c" using ncn by linarith
          have 3: "c + (i - c - n) = i - n" using ncn by linarith
          have 4: "i - n < 2097153" "rs + (i - n) = rs + i - n" using i ncn by linarith+
          show ?thesis using True nc ncn 1 2 lOld cn
            by (simp add: Y_def nth_append 3 Old [OF 4(1)] 4(2))
        next
          case False
          then have 5: "i = 2097152" using i by linarith
          have 2: "\<not> i - c - n < 2097152 - n - c" using 5 cn by linarith
          have 3: "i - c - n - (2097152 - n - c) = 0" using 5 cn by linarith
          show ?thesis using False nc ncn 1 2 lOld cn
            by (simp add: Y_def nth_append 3 Old 5)
        qed
      qed
    qed
    show "take 2097153 (drop rs xs) ! i = Y ! i" using X [OF i] m y by simp
  qed
  then show ?thesis unfolding Y_def Old_def rs_def .
qed

text \<open>
  C7.  After \<open>insertCols c n\<close>, in every row of the matrix: a cell at a column below \<open>c\<close>
  is unchanged, the columns \<open>c, \<dots>, c + n - 1\<close> read as absent, and what was readable at a
  column \<open>c' \<ge> c\<close> is readable at \<open>c' + n\<close>.  Proved for a matrix whose extent is below
  \<open>2 ^ 53\<close>, for \<open>c + n \<le> maxCol\<close>, and for the columns \<open>c'\<close> with \<open>c' + n < maxCol\<close>.  The
  cell at column \<open>maxCol\<close> stays where it is, and the \<open>n\<close> cells before it are the ones the
  insertion removes: the cells of a row are afterwards its former cells of the columns
  below \<open>c\<close>, then \<open>n\<close> empty cells, then its former cells of the columns from \<open>c\<close> to
  \<open>maxCol - n - 1\<close>, then its former cell of column \<open>maxCol\<close>.
\<close>

theorem insertCols_shift:
  assumes wf: "wf_chain ch" and L: "getLength ch < 2 ^ 53"
    and c: "0 \<le> c" and n: "0 \<le> n" and cn: "c + n \<le> maxCol"
  shows "\<exists>ch'. insertCols c n ch = Some (Inr ch') \<and> wf_chain ch'
           \<and> getLength ch' = getLength ch
           \<and> (\<forall>row col. 0 \<le> row \<and> row < numRows ch \<and> 0 \<le> col \<longrightarrow>
                 (col < c \<longrightarrow> getItem row col ch' = getItem row col ch)
                 \<and> (c \<le> col \<and> col < c + n \<longrightarrow> getItem row col ch' = Inr Undefined)
                 \<and> (c \<le> col \<and> col + n < maxCol \<longrightarrow>
                      getItem row (col + n) ch' = getItem row col ch))
           \<and> (\<forall>row. 0 \<le> row \<and> row < numRows ch \<longrightarrow>
                 getItem row maxCol ch' = getItem row maxCol ch
                 \<and> rowCells ch' row
                     = take (nat c) (rowCells ch row)
                       @ replicate (nat n) Empty
                       @ drop (nat c) (take (nat (maxCol - n)) (rowCells ch row))
                       @ drop (nat maxCol) (rowCells ch row))"
proof -
  define old where "old = chain_cells ch"
  define R where "R = getLength ch div 2097153"
  have cn': "c + n \<le> 2097152" using cn by (simp add: maxCol_eq)
  have L0: "0 \<le> getLength ch" using wf by (rule getLength_nonneg)
  have R0: "0 \<le> R" unfolding R_def using L0 by (simp add: pos_imp_zdiv_nonneg_iff)
  have RL: "R * 2097153 \<le> getLength ch"
    unfolding R_def using div_mult_mod_eq [of "getLength ch" 2097153]
      pos_mod_sign [of 2097153 "getLength ch"] by linarith
  have nr: "numRows ch = R" unfolding R_def using wf L by (rule numRows_exact)
  have inv0: "\<forall>p < length (chain_cells ch).
      chain_cells ch ! p = movedRows (nat 0) (nat c) (nat n) old p"
    by (simp add: movedRows_def old_def)
  have "(0::int) \<le> 0" by simp
  from moveAsPadding_loop_cells [OF wf L c n cn' this _ inv0] R0
  obtain ch' where ch': "moveAsPadding_loop (2097152 - n) 2097152 c n 0 0 ch = Some (Inr ch')"
    "wf_chain ch'" "getLength ch' = getLength ch"
    and cells: "\<forall>p < length old. chain_cells ch' ! p = movedRows (nat R) (nat c) (nat n) old p"
    by (auto simp: R_def old_def)
  have "\<bar>2097152 - n\<bar> < 2 ^ 53" using n c cn' by simp
  then have e1: "num_sub 2097152 n = 2097152 - n" by (rule num_sub_exact)
  have "\<bar>2097152 - n + n\<bar> < 2 ^ 53" by simp
  then have e2: "num_add (2097152 - n) n = 2097152"
    using num_add_exact [of "2097152 - n" n] by simp
  have ins: "insertCols c n ch = Some (Inr ch')"
    using ch'(1) by (simp add: insertCols_def moveAsPadding_def maxCol_eq e1 e2 Let_def)
  have lo: "int (length old) = getLength ch" using wf by (simp add: old_def getLength_cells)
  have rd: "getItem row col ch' = Inr (cell_value (movedRows (nat R) (nat c) (nat n) old
          (nat row * 2097153 + nat col)))
      \<and> getItem row col ch = Inr (cell_value (old ! (nat row * 2097153 + nat col)))"
    if h: "0 \<le> row" "row < R" "0 \<le> col" "col < 2097153" for row col
  proof -
    have "(row + 1) * 2097153 \<le> R * 2097153" using h(2) by simp
    then have lt: "row * 2097153 + col < getLength ch" using RL h(4) by (simp add: algebra_simps)
    then have p: "rowColToPosition row col = row * 2097153 + col"
      using h L by (intro rowColToPosition_exact) simp_all
    have np: "nat (row * 2097153 + col) = nat row * 2097153 + nat col"
      using h by (simp add: nat_add_distrib nat_mult_distrib)
    have 0: "0 \<le> row * 2097153 + col" using h by simp
    have a: "getItem row col ch' = Inr (cell_value (chain_cells ch' ! (nat row * 2097153 + nat col)))"
      using getItem_cells [of ch' row col] ch'(2,3) lt 0 by (simp add: p np)
    have b: "getItem row col ch = Inr (cell_value (chain_cells ch ! (nat row * 2097153 + nat col)))"
      using getItem_cells [of ch row col] wf lt 0 by (simp add: p np)
    have "nat row * 2097153 + nat col < length old" using lt lo np 0 by linarith
    with cells a b show ?thesis by (simp add: old_def)
  qed
  have main: "(col < c \<longrightarrow> getItem row col ch' = getItem row col ch)
      \<and> (c \<le> col \<and> col < c + n \<longrightarrow> getItem row col ch' = Inr Undefined)
      \<and> (c \<le> col \<and> col + n < maxCol \<longrightarrow> getItem row (col + n) ch' = getItem row col ch)"
    if h: "0 \<le> row \<and> row < numRows ch \<and> 0 \<le> col" for row col
  proof (intro conjI impI)
    have row: "0 \<le> row" "row < R" "0 \<le> col" "nat row < nat R" using h nr by simp_all
    {
      assume lt: "col < c"
      then have 1: "col < 2097153" "nat col < nat c" using cn' n row(3) by linarith+
      show "getItem row col ch' = getItem row col ch"
        using rd [OF row(1,2,3) 1(1)] 1 lt row(3)
        by (simp add: movedRows_in_row [OF row(4)])
    }
    {
      assume a: "c \<le> col \<and> col < c + n"
      then have 1: "col < 2097153" "\<not> nat col < nat c" "nat col < nat c + nat n"
        using cn' c n by linarith+
      show "getItem row col ch' = Inr Undefined"
        using rd [OF row(1,2,3) 1(1)] 1 a
        by (simp add: movedRows_in_row [OF row(4)])
    }
    {
      assume a: "c \<le> col \<and> col + n < maxCol"
      then have 1: "col + n < 2097153" "col < 2097153" "0 \<le> col + n"
        "\<not> nat (col + n) < nat c" "\<not> nat (col + n) < nat c + nat n"
        "nat (col + n) < 2097152"
        using c n row(3) by (simp_all add: maxCol_eq) linarith+
      have 2: "nat row * 2097153 + nat (col + n) - nat n = nat row * 2097153 + nat col"
        using n row(3) by (simp add: nat_add_distrib)
      have "nat (col + n) < 2097153" using 1(6) by simp
      note m = movedRows_in_row [OF row(4) this]
      show "getItem row (col + n) ch' = getItem row col ch"
        using rd [OF row(1,2) 1(3) 1(1)] rd [OF row(1,2,3) 1(2)] 1(4,5,6) a n c row(3)
        by (simp add: m 2)
    }
  qed
  have rows: "getItem row maxCol ch' = getItem row maxCol ch
      \<and> rowCells ch' row
          = take (nat c) (rowCells ch row)
            @ replicate (nat n) Empty
            @ drop (nat c) (take (nat (maxCol - n)) (rowCells ch row))
            @ drop (nat maxCol) (rowCells ch row)"
    if h: "0 \<le> row \<and> row < numRows ch" for row
  proof
    have row: "0 \<le> row" "row < R" "nat row < nat R" using h nr by simp_all
    have 1: "\<not> (2097152::nat) < nat c" "\<not> (2097152::nat) < nat c + nat n"
      using c n cn' by linarith+
    have "(2097152::nat) < 2097153" by simp
    note m = movedRows_in_row [OF row(3) this]
    show "getItem row maxCol ch' = getItem row maxCol ch"
      using rd [of row 2097152] row(1,2) 1 by (simp add: maxCol_eq m)
    have len: "length (chain_cells ch') = length old"
      using ch'(2,3) lo by (simp add: getLength_cells)
    have fit: "nat R * 2097153 \<le> length old" using RL lo R0 by linarith
    have cn2: "nat c + nat n \<le> 2097152" using c n cn' by linarith
    have nr1: "nat (row * 2097153) = nat row * 2097153"
      using row(1) by (simp add: nat_mult_distrib)
    have nr2: "nat (2097152 - n) = 2097152 - nat n" using n by (simp add: nat_diff_distrib)
    show "rowCells ch' row
          = take (nat c) (rowCells ch row)
            @ replicate (nat n) Empty
            @ drop (nat c) (take (nat (maxCol - n)) (rowCells ch row))
            @ drop (nat maxCol) (rowCells ch row)"
      using movedRows_row_cells [OF len cells row(3) fit cn2]
      by (simp only: rowCells_def maxCols_eq maxCol_eq nr1 nr2 old_def nat_numeral)
  qed
  from ins ch'(2,3) main rows show ?thesis by blast
qed

theorem insertCols_shift_witness:
  "wf_chain exampleRowAB \<and> getLength exampleRowAB < 2 ^ 53 \<and> (1::int) + 2 \<le> maxCol
   \<and> 0 < numRows exampleRowAB
   \<and> (\<exists>ch'. insertCols 1 2 exampleRowAB = Some (Inr ch')
          \<and> getItem 0 0 ch' = Inr (Text ''a'')
          \<and> getItem 0 1 ch' = Inr Undefined
          \<and> getItem 0 2 ch' = Inr Undefined
          \<and> getItem 0 3 ch' = Inr (Text ''b'')
          \<and> getItem 0 maxCol ch' = Inr Undefined)"
proof -
  have h1: "wf_chain exampleRowAB"
    by (simp add: exampleRowAB_def new_PaddingSegment_def new_RunSegment_def)
  have h2: "getLength exampleRowAB < 2 ^ 53"
    by (simp add: exampleRowAB_def new_PaddingSegment_def new_RunSegment_def)
  have h3: "(0::int) \<le> 1" and h4: "(0::int) \<le> 2" by simp_all
  have h5: "(1::int) + 2 \<le> maxCol" by (simp add: maxCol_eq)
  have nr: "numRows exampleRowAB = 1"
    using numRows_exact [OF h1 h2]
    by (simp add: exampleRowAB_def new_PaddingSegment_def new_RunSegment_def)
  have old: "getItem 0 0 exampleRowAB = Inr (Text ''a'')"
    "getItem 0 1 exampleRowAB = Inr (Text ''b'')"
    "getItem 0 2097152 exampleRowAB = Inr Undefined"
    by (simp_all add: getItem_def Let_def rowColToPosition_exact exampleRowAB_def
        new_PaddingSegment_def new_RunSegment_def js_index_def)
  from insertCols_shift [OF h1 h2 h3 h4 h5]
  obtain ch' where ins: "insertCols 1 2 exampleRowAB = Some (Inr ch')"
    and sh: "\<forall>row col. 0 \<le> row \<and> row < numRows exampleRowAB \<and> 0 \<le> col \<longrightarrow>
        (col < 1 \<longrightarrow> getItem row col ch' = getItem row col exampleRowAB)
        \<and> (1 \<le> col \<and> col < 1 + 2 \<longrightarrow> getItem row col ch' = Inr Undefined)
        \<and> (1 \<le> col \<and> col + 2 < maxCol \<longrightarrow>
             getItem row (col + 2) ch' = getItem row col exampleRowAB)"
    and la: "\<forall>row. 0 \<le> row \<and> row < numRows exampleRowAB \<longrightarrow>
        getItem row maxCol ch' = getItem row maxCol exampleRowAB
        \<and> rowCells ch' row
            = take (nat 1) (rowCells exampleRowAB row)
              @ replicate (nat 2) Empty
              @ drop (nat 1) (take (nat (maxCol - 2)) (rowCells exampleRowAB row))
              @ drop (nat maxCol) (rowCells exampleRowAB row)"
    by blast
  from sh [rule_format, of 0 0] sh [rule_format, of 0 1] sh [rule_format, of 0 2]
  have "getItem 0 0 ch' = Inr (Text ''a'')" "getItem 0 1 ch' = Inr Undefined"
    "getItem 0 2 ch' = Inr Undefined" "getItem 0 3 ch' = Inr (Text ''b'')"
    by (simp_all add: nr old maxCol_eq)
  moreover from la [rule_format, of 0]
  have "getItem 0 maxCol ch' = Inr Undefined" by (simp add: nr old maxCol_eq)
  ultimately show ?thesis using h1 h2 h5 nr ins by simp
qed

text \<open>
  A value in the last columns of a row is not moved but removed: with a value at column
  \<open>maxCol - 1\<close>, after \<open>insertCols 0 1\<close> column \<open>maxCol\<close> reads as absent.
\<close>

theorem insertCols_tail_removed:
  "insertRows 0 1 [] = Inr exampleRow
   \<and> setItems 0 2097151 [Text ''x''] None exampleRow = Inr tailRow
   \<and> getItem 0 2097151 tailRow = Inr (Text ''x'')
   \<and> insertCols 0 1 tailRow = Some (Inr tailRowShifted)
   \<and> getItem 0 (num_add 2097151 1) tailRowShifted = Inr Undefined
   \<and> num_add 2097151 1 = maxCol"
  by code_simp

end
